theory Spec2Isabelle
  imports Complex_Main
begin

text \<open>
  A shallow embedding of the render service (\<open>server.js\<close>): the caches, the fetch with
  the extension swapped, the bounded parallel map, the fingerprint of a payload, the
  validation of a submitted job, the two compositors, and the registry of jobs with its
  in-flight table.  Asynchronous code is modelled by the events of the event loop; what
  the network, the file system, the image library and the built-in functions of the
  language return is a parameter of the functions that use it.  Line numbers are those
  of \<open>server.js\<close>.
\<close>

section \<open>The byte and image caches: \<open>SimpleCache\<close> (server.js, lines 117-139)\<close>

text \<open>
  A JavaScript \<open>Map\<close> keeps its entries in the order in which their keys were first
  inserted.  It is modelled as an association list in that order: \<open>Map_set\<close> overwrites
  the value of a key that is present where it stands and appends a new key at the end,
  \<open>Map_delete\<close> removes the key, and \<open>Map_first_key\<close> is
  \<open>map.keys().next().value\<close> (\<open>None\<close> is \<open>undefined\<close>, on an empty map).
\<close>

type_synonym ('k, 'v) js_map = "('k \<times> 'v) list"

definition Map_get :: "('k, 'v) js_map \<Rightarrow> 'k \<Rightarrow> 'v option" where
  "Map_get m k = map_of m k"

fun Map_set :: "('k, 'v) js_map \<Rightarrow> 'k \<Rightarrow> 'v \<Rightarrow> ('k, 'v) js_map" where
  "Map_set [] k v = [(k, v)]"
| "Map_set ((k', v') # m) k v = (if k' = k then (k, v) # m else (k', v') # Map_set m k v)"

definition Map_delete :: "('k, 'v) js_map \<Rightarrow> 'k \<Rightarrow> ('k, 'v) js_map" where
  "Map_delete m k = filter (\<lambda>p. fst p \<noteq> k) m"

definition Map_size :: "('k, 'v) js_map \<Rightarrow> nat" where
  "Map_size m = length m"

definition Map_first_key :: "('k, 'v) js_map \<Rightarrow> 'k option" where
  "Map_first_key m = (case m of [] \<Rightarrow> None | p # _ \<Rightarrow> Some (fst p))"

text \<open>
  A cache entry is \<open>{ value, expiresAt }\<close>; \<open>expiresAt\<close> is a time in milliseconds,
  or 0 for an entry that never expires.  The cache object holds \<open>max\<close> and \<open>map\<close>.
\<close>

record 'v cache_entry =
  entry_value :: 'v
  expiresAt :: nat

record ('k, 'v) SimpleCache =
  cache_max :: nat
  cache_map :: "('k, 'v cache_entry) js_map"

definition SimpleCache_new :: "nat \<Rightarrow> ('k, 'v) SimpleCache" where
  "SimpleCache_new mx = \<lparr>cache_max = mx, cache_map = []\<rparr>"

text \<open>
  \<open>get(key)\<close> at time \<open>now\<close> (the value of \<open>Date.now()\<close>): a missing entry is a
  miss; an entry with a non-zero \<open>expiresAt\<close> that lies before \<open>now\<close> is deleted and is a
  miss; otherwise the stored value is returned.  The cache is returned with the result.
\<close>

definition cache_get ::
  "('k, 'v) SimpleCache \<Rightarrow> nat \<Rightarrow> 'k \<Rightarrow> ('k, 'v) SimpleCache \<times> 'v option" where
  "cache_get c now k =
     (case Map_get (cache_map c) k of
        None \<Rightarrow> (c, None)
      | Some e \<Rightarrow>
          if expiresAt e \<noteq> 0 \<and> expiresAt e < now
          then (c\<lparr>cache_map := Map_delete (cache_map c) k\<rparr>, None)
          else (c, Some (entry_value e)))"

text \<open>
  \<open>set(key, value, ttlMs)\<close>: when the map holds \<open>max\<close> entries or more, the first key
  of the map is deleted (on an empty map that key is \<open>undefined\<close> and nothing is
  deleted); then the entry is stored, expiring at \<open>now + ttlMs\<close> when \<open>ttlMs\<close> is
  truthy and never otherwise.
\<close>

definition evict_oldest :: "('k, 'v) js_map \<Rightarrow> ('k, 'v) js_map" where
  "evict_oldest m = (case Map_first_key m of None \<Rightarrow> m | Some oldest \<Rightarrow> Map_delete m oldest)"

definition cache_set ::
  "('k, 'v) SimpleCache \<Rightarrow> nat \<Rightarrow> 'k \<Rightarrow> 'v \<Rightarrow> nat \<Rightarrow> ('k, 'v) SimpleCache \<times> 'v" where
  "cache_set c now k v ttlMs =
     (let m = (if Map_size (cache_map c) \<ge> cache_max c then evict_oldest (cache_map c)
               else cache_map c);
          e = \<lparr>entry_value = v, expiresAt = (if ttlMs \<noteq> 0 then now + ttlMs else 0)\<rparr>
      in (c\<lparr>cache_map := Map_set m k e\<rparr>, v))"

text \<open>The bound of a cache, and the keys of a map being distinct (as in any \<open>Map\<close>).\<close>

definition within_bound :: "('k, 'v) SimpleCache \<Rightarrow> bool" where
  "within_bound c \<longleftrightarrow> Map_size (cache_map c) \<le> cache_max c"

definition Map_ok :: "('k, 'v) js_map \<Rightarrow> bool" where
  "Map_ok m \<longleftrightarrow> distinct (map fst m)"

definition expired :: "'v cache_entry \<Rightarrow> nat \<Rightarrow> bool" where
  "expired e now \<longleftrightarrow> expiresAt e \<noteq> 0 \<and> expiresAt e < now"

subsection \<open>Facts about the map operations\<close>

lemma Map_set_length:
  "length (Map_set m k v) = (if k \<in> fst ` set m then length m else Suc (length m))"
proof (induction m)
  case Nil
  then show ?case by simp
next
  case (Cons p m)
  obtain k' v' where p: "p = (k', v')" by (cases p)
  show ?case using Cons p by (cases "k' = k") simp_all
qed

lemma Map_set_length_le: "length (Map_set m k v) \<le> Suc (length m)"
  by (simp add: Map_set_length)

lemma Map_set_keys: "fst ` set (Map_set m k v) = insert k (fst ` set m)"
proof (induction m)
  case Nil
  then show ?case by simp
next
  case (Cons p m)
  obtain k' v' where p: "p = (k', v')" by (cases p)
  show ?case using Cons p by (cases "k' = k") (simp_all add: insert_commute)
qed

lemma Map_set_distinct: "distinct (map fst m) \<Longrightarrow> distinct (map fst (Map_set m k v))"
proof (induction m)
  case Nil
  then show ?case by simp
next
  case (Cons p m)
  obtain k' v' where p: "p = (k', v')" by (cases p)
  have "k' \<noteq> k \<Longrightarrow> k' \<notin> fst ` set (Map_set m k v)"
    using Cons.prems p by (simp add: Map_set_keys image_iff)
  then show ?case using Cons p by (auto simp: image_iff)
qed

lemma Map_set_lookup: "map_of (Map_set m k v) k' = (if k' = k then Some v else map_of m k')"
  by (induction m) auto

lemma Map_delete_lookup: "map_of (Map_delete m k) k' = (if k' = k then None else map_of m k')"
  unfolding Map_delete_def by (induction m) auto

lemma Map_delete_length_le: "length (Map_delete m k) \<le> length m"
  unfolding Map_delete_def by simp

lemma Map_delete_distinct: "distinct (map fst m) \<Longrightarrow> distinct (map fst (Map_delete m k))"
  unfolding Map_delete_def by (simp add: distinct_map_filter)

lemma evict_oldest_length: "m \<noteq> [] \<Longrightarrow> Suc (length (evict_oldest m)) \<le> length m"
proof (cases m)
  case Nil
  assume "m \<noteq> []"
  with Nil show ?thesis by simp
next
  case (Cons p m')
  have "length (filter (\<lambda>q. fst q \<noteq> fst p) m') \<le> length m'" by simp
  then show ?thesis
    using Cons by (simp add: evict_oldest_def Map_first_key_def Map_delete_def)
qed

lemma evict_oldest_distinct: "distinct (map fst m) \<Longrightarrow> distinct (map fst (evict_oldest m))"
  by (cases m) (simp_all add: evict_oldest_def Map_first_key_def Map_delete_distinct)

lemma evict_oldest_lookup:
  "map_of (evict_oldest m) k' =
     (if Map_first_key m = Some k' then None else map_of m k')"
  by (cases m) (auto simp: evict_oldest_def Map_first_key_def Map_delete_lookup)

lemma cache_set_map:
  "cache_map (fst (cache_set c now k v ttlMs)) =
     Map_set (if Map_size (cache_map c) \<ge> cache_max c then evict_oldest (cache_map c)
              else cache_map c) k
       \<lparr>entry_value = v, expiresAt = (if ttlMs \<noteq> 0 then now + ttlMs else 0)\<rparr>"
  by (simp add: cache_set_def Let_def)

lemma cache_set_bound:
  assumes "0 < cache_max c" and "within_bound c"
  shows "within_bound (fst (cache_set c now k v ttlMs))"
proof -
  define m where "m = (if Map_size (cache_map c) \<ge> cache_max c
    then evict_oldest (cache_map c) else cache_map c)"
  define e where
    "e = \<lparr>entry_value = v, expiresAt = (if ttlMs \<noteq> 0 then now + ttlMs else 0)\<rparr>"
  have room: "Suc (length m) \<le> cache_max c"
  proof (cases "Map_size (cache_map c) \<ge> cache_max c")
    case True
    with assms have ne: "cache_map c \<noteq> []" by (auto simp: Map_size_def)
    show ?thesis
      using evict_oldest_length [OF ne] assms(2) True
      by (simp add: m_def within_bound_def Map_size_def)
  next
    case False
    then show ?thesis by (simp add: m_def Map_size_def)
  qed
  have "length (Map_set m k e) \<le> Suc (length m)" by (rule Map_set_length_le)
  with room have "length (Map_set m k e) \<le> cache_max c" by simp
  moreover have "cache_map (fst (cache_set c now k v ttlMs)) = Map_set m k e"
    unfolding m_def e_def by (rule cache_set_map)
  moreover have "cache_max (fst (cache_set c now k v ttlMs)) = cache_max c"
    by (simp add: cache_set_def Let_def)
  ultimately show ?thesis by (simp add: within_bound_def Map_size_def)
qed

lemma cache_get_bound:
  assumes "within_bound c"
  shows "within_bound (fst (cache_get c now k))"
proof -
  have "length (Map_delete (cache_map c) k) \<le> cache_max c"
    using Map_delete_length_le [of "cache_map c" k] assms
    by (simp add: within_bound_def Map_size_def)
  then show ?thesis
    using assms by (simp add: cache_get_def within_bound_def Map_size_def split: option.splits)
qed

lemma cache_set_max: "cache_max (fst (cache_set c now k v ttlMs)) = cache_max c"
  by (simp add: cache_set_def Let_def)

lemma cache_get_max: "cache_max (fst (cache_get c now k)) = cache_max c"
  by (simp add: cache_get_def split: option.splits)

lemma cache_set_ok: "Map_ok (cache_map c) \<Longrightarrow> Map_ok (cache_map (fst (cache_set c now k v ttlMs)))"
  by (simp add: cache_set_def Let_def Map_ok_def Map_set_distinct evict_oldest_distinct)

lemma cache_get_ok: "Map_ok (cache_map c) \<Longrightarrow> Map_ok (cache_map (fst (cache_get c now k)))"
  by (simp add: cache_get_def Map_ok_def Map_delete_distinct split: option.splits)

lemma cache_set_at_capacity:
  assumes "Map_size (cache_map c) \<ge> cache_max c"
  shows "Map_get (cache_map (fst (cache_set c now k v ttlMs))) k' =
     (if k' = k then Some \<lparr>entry_value = v, expiresAt = (if ttlMs \<noteq> 0 then now + ttlMs else 0)\<rparr>
      else if Map_first_key (cache_map c) = Some k' then None
      else Map_get (cache_map c) k')"
  using assms by (simp add: cache_set_def Let_def Map_get_def Map_set_lookup evict_oldest_lookup)

lemma cache_get_expired:
  assumes "Map_get (cache_map c) k = Some e" and "expired e now"
  shows "snd (cache_get c now k) = None"
    and "Map_get (cache_map (fst (cache_get c now k))) k' =
           (if k' = k then None else Map_get (cache_map c) k')"
  using assms by (simp_all add: cache_get_def expired_def Map_get_def Map_delete_lookup)

subsection \<open>The bound of the cache\<close>

text \<open>Two caches used as concrete inputs below: a full cache of capacity 2, and a
  cache built with capacity 0.\<close>

definition cache_full2 :: "(string, nat) SimpleCache" where
  "cache_full2 =
     \<lparr>cache_max = 2,
      cache_map = [(''buf:a'', \<lparr>entry_value = 1, expiresAt = 500\<rparr>),
                   (''buf:b'', \<lparr>entry_value = 2, expiresAt = 0\<rparr>)]\<rparr>"

definition cache_zero :: "(string, nat) SimpleCache" where
  "cache_zero = SimpleCache_new 0"

text \<open>
  C8 (as amended).  For a cache whose capacity \<open>max\<close> is at least 1, \<open>set\<close> and
  \<open>get\<close> keep the number of entries at most \<open>max\<close>.  A \<open>set\<close> on a cache at
  capacity first removes the oldest insertion (the first key of the map) and then stores
  the entry: afterwards the key that was set is present, the oldest key is gone unless
  it is the key that was set, and every other key is as before.  A \<open>get\<close> of an entry
  whose expiry time is set and has passed deletes that entry and returns a miss.
\<close>

theorem SimpleCache_bound_preserved:
  assumes "0 < cache_max c" and "within_bound c"
  shows "within_bound (fst (cache_set c now k v ttlMs))
       \<and> within_bound (fst (cache_get c now k))
       \<and> (Map_size (cache_map c) \<ge> cache_max c \<longrightarrow>
            Map_get (cache_map (fst (cache_set c now k v ttlMs))) k' =
              (if k' = k
               then Some \<lparr>entry_value = v,
                           expiresAt = (if ttlMs \<noteq> 0 then now + ttlMs else 0)\<rparr>
               else if Map_first_key (cache_map c) = Some k' then None
               else Map_get (cache_map c) k'))
       \<and> (\<forall>e. Map_get (cache_map c) k = Some e \<and> expired e now \<longrightarrow>
            snd (cache_get c now k) = None
            \<and> Map_get (cache_map (fst (cache_get c now k))) k = None)"
proof -
  have "within_bound (fst (cache_set c now k v ttlMs))"
    using assms by (rule cache_set_bound)
  moreover have "within_bound (fst (cache_get c now k))"
    using assms(2) by (rule cache_get_bound)
  moreover have "Map_size (cache_map c) \<ge> cache_max c \<longrightarrow>
            Map_get (cache_map (fst (cache_set c now k v ttlMs))) k' =
              (if k' = k
               then Some \<lparr>entry_value = v,
                           expiresAt = (if ttlMs \<noteq> 0 then now + ttlMs else 0)\<rparr>
               else if Map_first_key (cache_map c) = Some k' then None
               else Map_get (cache_map c) k')"
    using cache_set_at_capacity [of c now k v ttlMs k'] by blast
  moreover have "\<forall>e. Map_get (cache_map c) k = Some e \<and> expired e now \<longrightarrow>
            snd (cache_get c now k) = None
            \<and> Map_get (cache_map (fst (cache_get c now k))) k = None"
    using cache_get_expired(1) [of c k _ now] cache_get_expired(2) [of c k _ now k] by simp
  ultimately show ?thesis by blast
qed

theorem SimpleCache_bound_preserved_witness:
  "within_bound cache_full2
   \<and> within_bound (fst (cache_set cache_full2 1000 ''buf:c'' 3 60000))
   \<and> Map_get (cache_map (fst (cache_set cache_full2 1000 ''buf:c'' 3 60000))) ''buf:a'' = None
   \<and> Map_get (cache_map (fst (cache_set cache_full2 1000 ''buf:c'' 3 60000))) ''buf:c''
       = Some \<lparr>entry_value = 3, expiresAt = 61000\<rparr>
   \<and> snd (cache_get cache_full2 1000 ''buf:a'') = None
   \<and> Map_get (cache_map (fst (cache_get cache_full2 1000 ''buf:a''))) ''buf:a'' = None"
proof -
  have pos: "0 < cache_max cache_full2" by (simp add: cache_full2_def)
  have bnd: "within_bound cache_full2"
    by (simp add: cache_full2_def within_bound_def Map_size_def)
  have cap: "Map_size (cache_map cache_full2) \<ge> cache_max cache_full2"
    by (simp add: cache_full2_def Map_size_def)
  have old: "Map_first_key (cache_map cache_full2) = Some ''buf:a''"
    by (simp add: cache_full2_def Map_first_key_def)
  have ent: "Map_get (cache_map cache_full2) ''buf:a''
      = Some \<lparr>entry_value = 1, expiresAt = 500\<rparr>"
    by (simp add: cache_full2_def Map_get_def)
  have ex: "expired \<lparr>entry_value = (1::nat), expiresAt = 500\<rparr> 1000"
    by (simp add: expired_def)
  note a = SimpleCache_bound_preserved [OF pos bnd, of 1000 "''buf:c''" 3 60000 "''buf:a''"]
  note b = SimpleCache_bound_preserved [OF pos bnd, of 1000 "''buf:c''" 3 60000 "''buf:c''"]
  note g = SimpleCache_bound_preserved [OF pos bnd, of 1000 "''buf:a''" 3 60000 "''buf:a''"]
  show ?thesis using a b g bnd cap old ent ex by simp
qed

text \<open>
  The claim as stated, for every cache, fails for a cache of capacity 0 (as
  \<open>RENDER_CACHE_MAX_ITEMS=0\<close> builds): the empty cache is within its bound, \<open>set\<close>
  finds no oldest key to delete, stores the entry, and the cache holds one entry.
\<close>

theorem SimpleCache_bound_counterexample:
  "within_bound cache_zero
   \<and> Map_size (cache_map (fst (cache_set cache_zero 1000 ''buf:a'' 1 60000))) = 1
   \<and> cache_max (fst (cache_set cache_zero 1000 ''buf:a'' 1 60000)) = 0
   \<and> \<not> within_bound (fst (cache_set cache_zero 1000 ''buf:a'' 1 60000))"
  by (simp add: cache_zero_def SimpleCache_new_def within_bound_def Map_size_def
      cache_set_def evict_oldest_def Map_first_key_def Let_def)

section \<open>Fetching with the extension swapped: \<open>fetchImageWithFallback\<close> (lines 195-213)\<close>

text \<open>
  Errors are values.  \<open>TypeError\<close> is the error the language raises (a property read on
  \<open>null\<close>, a call of something that is no function); \<open>Error msg\<close> is \<open>new Error(msg)\<close>
  or an error of the network or of the file system, with its message.
\<close>

datatype js_error = TypeError | Error string

text \<open>
  The regular expressions \<open>/\.png(\?.*)?$/i\<close> and \<open>/\.gif(\?.*)?$/i\<close>.  Strings are lists
  of characters, one per code unit.  \<open>ci_eq p c\<close>: the pattern character \<open>p\<close> (a dot or a
  lower-case letter of the two extensions) matches \<open>c\<close>, ignoring case.  \<open>match_lit\<close>
  matches the literal part at the start of a string and returns the rest; \<open>query_tail\<close>
  is \<open>(\?.*)?$\<close> on that rest: nothing, or a question mark followed by characters none of
  which is a line terminator (the dot of a regular expression does not match those).
\<close>

definition ci_eq :: "char \<Rightarrow> char \<Rightarrow> bool" where
  "ci_eq p c \<longleftrightarrow> c = p \<or>
     (p, c) \<in> set [(CHR ''p'', CHR ''P''), (CHR ''n'', CHR ''N''), (CHR ''g'', CHR ''G''),
                  (CHR ''i'', CHR ''I''), (CHR ''f'', CHR ''F'')]"

fun match_lit :: "string \<Rightarrow> string \<Rightarrow> string option" where
  "match_lit [] s = Some s"
| "match_lit (p # ps) [] = None"
| "match_lit (p # ps) (c # cs) = (if ci_eq p c then match_lit ps cs else None)"

definition is_line_terminator :: "char \<Rightarrow> bool" where
  "is_line_terminator c \<longleftrightarrow> c = CHR 0x0A \<or> c = CHR 0x0D"

definition query_tail :: "string \<Rightarrow> bool" where
  "query_tail r =
     (case r of [] \<Rightarrow> True | c # q \<Rightarrow> c = CHR ''?'' \<and> \<not> list_ex is_line_terminator q)"

definition match_here :: "string \<Rightarrow> string \<Rightarrow> string option" where
  "match_here ext s =
     (case match_lit ext s of
        None \<Rightarrow> None
      | Some r \<Rightarrow> if query_tail r then Some r else None)"

text \<open>
  \<open>regex_exec ext s\<close> is the leftmost match of the expression in \<open>s\<close>, as \<open>test\<close> and a
  \<open>replace\<close> without the \<open>g\<close> flag find it: the text before the match, and the text after
  the extension (the group \<open>$1\<close>, empty when the group did not take part).
\<close>

fun regex_exec :: "string \<Rightarrow> string \<Rightarrow> (string \<times> string) option" where
  "regex_exec ext [] = (case match_here ext [] of None \<Rightarrow> None | Some r \<Rightarrow> Some ([], r))"
| "regex_exec ext (c # cs) =
     (case match_here ext (c # cs) of
        Some r \<Rightarrow> Some ([], r)
      | None \<Rightarrow> (case regex_exec ext cs of None \<Rightarrow> None | Some (p, r) \<Rightarrow> Some (c # p, r)))"

definition swapImageExtension :: "string \<Rightarrow> string option" where
  "swapImageExtension url =
     (if url = [] then None
      else case regex_exec ''.png'' url of
        Some (p, r) \<Rightarrow> Some (p @ ''.gif'' @ r)
      | None \<Rightarrow>
          (case regex_exec ''.gif'' url of
             Some (p, r) \<Rightarrow> Some (p @ ''.png'' @ r)
           | None \<Rightarrow> None))"

text \<open>
  \<open>fetchImageWithFallback\<close>.  \<open>fetchBuffer\<close> is the function of lines 154-193 taken as
  a parameter: for a URL it gives the bytes or the error that its promise rejects with.
  The result is paired with the list of URLs that were passed to \<open>fetchBuffer\<close>, in order.
\<close>

definition fetchImageWithFallback ::
  "(string \<Rightarrow> js_error + 'b) \<Rightarrow> string \<Rightarrow> string list \<times> (js_error + 'b)" where
  "fetchImageWithFallback fetchBuffer url =
     (case fetchBuffer url of
        Inr buf \<Rightarrow> ([url], Inr buf)
      | Inl e \<Rightarrow>
          (case swapImageExtension url of
             Some alt \<Rightarrow> ([url, alt], fetchBuffer alt)
           | None \<Rightarrow> ([url], Inl e)))"

text \<open>
  What the claim calls a URL ending in an extension, optionally followed by a query
  string: the URL can be cut into a text \<open>p\<close>, the extension \<open>e\<close> in any case, and a rest
  \<open>q\<close> that is empty or a query.  A URL can have several such cuts
  (\<open>a.png?b.png\<close> has two); \<open>leftmost_cut\<close> is the one whose \<open>p\<close> is shortest.
\<close>

definition ends_in_ext :: "string \<Rightarrow> string \<Rightarrow> bool" where
  "ends_in_ext ext url \<longleftrightarrow>
     (\<exists>p e q. url = p @ e @ q \<and> list_all2 ci_eq ext e \<and> query_tail q)"

definition leftmost_cut :: "string \<Rightarrow> string \<Rightarrow> string \<Rightarrow> string \<Rightarrow> string \<Rightarrow> bool" where
  "leftmost_cut ext url p e q \<longleftrightarrow>
     url = p @ e @ q \<and> list_all2 ci_eq ext e \<and> query_tail q \<and>
     (\<forall>p' e' q'. url = p' @ e' @ q' \<and> list_all2 ci_eq ext e' \<and> query_tail q'
        \<longrightarrow> length p \<le> length p')"

text \<open>A CDN that answers 404 to every request: line 173 builds the error message.\<close>

definition fetch_all_404 :: "string \<Rightarrow> js_error + nat list" where
  "fetch_all_404 url = Inl (Error (''HTTP 404 for '' @ url))"

subsection \<open>The regular expression finds exactly the URLs with the extension\<close>

lemma match_lit_Some:
  "match_lit ext s = Some r \<longleftrightarrow> (\<exists>e. s = e @ r \<and> list_all2 ci_eq ext e)"
proof (induction ext s rule: match_lit.induct)
  case (1 s)
  then show ?case by auto
next
  case (2 p ps)
  then show ?case by (auto simp: list_all2_Cons1)
next
  case (3 p ps c cs)
  show ?case
  proof (cases "ci_eq p c")
    case True
    have "(\<exists>e. c # cs = e @ r \<and> list_all2 ci_eq (p # ps) e)
        \<longleftrightarrow> (\<exists>e'. cs = e' @ r \<and> list_all2 ci_eq ps e')"
    proof
      assume "\<exists>e. c # cs = e @ r \<and> list_all2 ci_eq (p # ps) e"
      then obtain e where e: "c # cs = e @ r" "list_all2 ci_eq (p # ps) e" by blast
      from e(2) obtain x e' where "e = x # e'" "list_all2 ci_eq ps e'"
        by (auto simp: list_all2_Cons1)
      with e(1) show "\<exists>e'. cs = e' @ r \<and> list_all2 ci_eq ps e'" by auto
    next
      assume "\<exists>e'. cs = e' @ r \<and> list_all2 ci_eq ps e'"
      then obtain e' where "cs = e' @ r" "list_all2 ci_eq ps e'" by blast
      with True have "c # cs = (c # e') @ r \<and> list_all2 ci_eq (p # ps) (c # e')" by simp
      then show "\<exists>e. c # cs = e @ r \<and> list_all2 ci_eq (p # ps) e" by blast
    qed
    with True 3 show ?thesis by simp
  next
    case False
    then have "\<not> (\<exists>e. c # cs = e @ r \<and> list_all2 ci_eq (p # ps) e)"
      by (auto simp: list_all2_Cons1 Cons_eq_append_conv)
    with False show ?thesis by simp
  qed
qed

lemma match_here_Some:
  "match_here ext s = Some r \<longleftrightarrow> (\<exists>e. s = e @ r \<and> list_all2 ci_eq ext e) \<and> query_tail r"
proof -
  have "match_here ext s = Some r \<longleftrightarrow> match_lit ext s = Some r \<and> query_tail r"
    by (auto simp: match_here_def split: option.splits)
  then show ?thesis by (simp add: match_lit_Some)
qed

lemma regex_exec_sound:
  "regex_exec ext s = Some (p, r) \<Longrightarrow>
     \<exists>e. s = p @ e @ r \<and> list_all2 ci_eq ext e \<and> query_tail r"
proof (induction s arbitrary: p)
  case Nil
  then show ?case
    using match_here_Some [of ext "[]" r] by (auto split: option.splits)
next
  case (Cons c cs)
  show ?case
  proof (cases "match_here ext (c # cs)")
    case (Some r')
    with Cons.prems have "p = []" "r' = r" by simp_all
    with Some show ?thesis using match_here_Some [of ext "c # cs" r] by auto
  next
    case None
    with Cons.prems obtain p' where p': "regex_exec ext cs = Some (p', r)" "p = c # p'"
      by (auto split: option.splits)
    from Cons.IH [OF p'(1)] p'(2) show ?thesis by auto
  qed
qed

lemma regex_exec_complete:
  "list_all2 ci_eq ext e \<Longrightarrow> query_tail q \<Longrightarrow> regex_exec ext (p @ e @ q) \<noteq> None"
proof (induction p)
  case Nil
  then have "match_here ext (e @ q) = Some q"
    using match_here_Some [of ext "e @ q" q] by blast
  then show ?case by (cases "e @ q") simp_all
next
  case (Cons c p)
  then show ?case by (auto split: option.splits)
qed

lemma regex_exec_iff: "regex_exec ext url \<noteq> None \<longleftrightarrow> ends_in_ext ext url"
proof
  assume "regex_exec ext url \<noteq> None"
  then obtain p r where "regex_exec ext url = Some (p, r)" by auto
  from regex_exec_sound [OF this] show "ends_in_ext ext url"
    unfolding ends_in_ext_def by blast
next
  assume "ends_in_ext ext url"
  then show "regex_exec ext url \<noteq> None"
    unfolding ends_in_ext_def using regex_exec_complete by blast
qed

lemma ends_in_ext_nonempty: "ends_in_ext (x # ext) url \<Longrightarrow> url \<noteq> []"
  unfolding ends_in_ext_def by (auto simp: list_all2_Cons1)


lemma swapImageExtension_None:
  assumes "\<not> ends_in_ext ''.png'' url" and "\<not> ends_in_ext ''.gif'' url"
  shows "swapImageExtension url = None"
proof -
  have "regex_exec ''.png'' url = None"
    using assms(1) regex_exec_iff [of "''.png''" url] by blast
  moreover have "regex_exec ''.gif'' url = None"
    using assms(2) regex_exec_iff [of "''.gif''" url] by blast
  ultimately show ?thesis by (simp add: swapImageExtension_def)
qed

subsection \<open>The match that is replaced is the leftmost one\<close>

lemma regex_exec_leftmost:
  "regex_exec ext s = Some (p, r) \<Longrightarrow> s = p' @ e' @ q' \<Longrightarrow> list_all2 ci_eq ext e'
     \<Longrightarrow> query_tail q' \<Longrightarrow> length p \<le> length p'"
proof (induction s arbitrary: p p')
  case Nil
  then show ?case by (auto split: option.splits)
next
  case (Cons c cs)
  show ?case
  proof (cases "match_here ext (c # cs)")
    case (Some r')
    with Cons.prems(1) show ?thesis by simp
  next
    case None
    with Cons.prems(1) obtain p1 where p1: "regex_exec ext cs = Some (p1, r)" "p = c # p1"
      by (auto split: option.splits)
    have "p' \<noteq> []"
    proof
      assume "p' = []"
      with Cons.prems have "match_here ext (c # cs) = Some q'"
        using match_here_Some [of ext "c # cs" q'] by auto
      with None show False by simp
    qed
    then obtain p2 where p2: "p' = c # p2" "cs = p2 @ e' @ q'"
      using Cons.prems(2) by (cases p') auto
    from Cons.IH [OF p1(1) p2(2) Cons.prems(3) Cons.prems(4)] p1(2) p2(1)
    show ?thesis by simp
  qed
qed

lemma regex_exec_leftmost_cut:
  assumes "regex_exec ext url = Some (p, q)"
  shows "\<exists>e. leftmost_cut ext url p e q"
proof -
  from regex_exec_sound [OF assms]
  obtain e where e: "url = p @ e @ q" "list_all2 ci_eq ext e" "query_tail q" by blast
  have "length p \<le> length p'"
    if "url = p' @ e' @ q'" "list_all2 ci_eq ext e'" "query_tail q'" for p' e' q'
    using regex_exec_leftmost [OF assms that] .
  with e show ?thesis unfolding leftmost_cut_def by blast
qed

lemma leftmost_cut_unique:
  assumes "leftmost_cut ext url p e q" and "leftmost_cut ext url p' e' q'"
  shows "p' = p \<and> e' = e \<and> q' = q"
proof -
  from assms have u: "url = p @ e @ q" "url = p' @ e' @ q'"
    and le: "list_all2 ci_eq ext e" "list_all2 ci_eq ext e'"
    and qt: "query_tail q" "query_tail q'"
    unfolding leftmost_cut_def by blast+
  from assms(1) u(2) le(2) qt(2) have "length p \<le> length p'"
    unfolding leftmost_cut_def by blast
  moreover from assms(2) u(1) le(1) qt(1) have "length p' \<le> length p"
    unfolding leftmost_cut_def by blast
  ultimately have lp: "length p' = length p" by simp
  from u have "p' @ (e' @ q') = p @ (e @ q)" by simp
  with lp have p: "p' = p" and rest: "e' @ q' = e @ q" by simp_all
  from le have "length e' = length e" by (simp add: list_all2_lengthD [symmetric])
  with rest have "e' = e" "q' = q" by simp_all
  with p show ?thesis by simp
qed

text \<open>
  When the text before the extension holds no question mark, the cut there is the
  leftmost one: the extension that is replaced is then the one of the path, and what
  follows it, the query, is kept.
\<close>

lemma ci_eq_no_question: "list_all2 ci_eq ext e \<Longrightarrow> CHR ''?'' \<notin> set ext \<Longrightarrow> CHR ''?'' \<notin> set e"
  by (induction ext e rule: list_all2_induct) (auto simp: ci_eq_def)

lemma append_eq_longer:
  "a @ q = b @ q' \<Longrightarrow> length b < length a \<Longrightarrow> \<exists>us. us \<noteq> [] \<and> a = b @ us \<and> q' = us @ q"
  by (auto simp: append_eq_append_conv2)

lemma leftmost_cut_plain_path:
  assumes p: "CHR ''?'' \<notin> set p" and ext: "CHR ''?'' \<notin> set ext"
    and e: "list_all2 ci_eq ext e" and q: "query_tail q"
  shows "leftmost_cut ext (p @ e @ q) p e q"
proof -
  have "length p \<le> length p'"
    if c: "p @ e @ q = p' @ e' @ q'" "list_all2 ci_eq ext e'" "query_tail q'" for p' e' q'
  proof (rule ccontr)
    assume "\<not> length p \<le> length p'"
    moreover from e c(2) have "length e' = length e"
      by (simp add: list_all2_lengthD [symmetric])
    ultimately have less: "length (p' @ e') < length (p @ e)" by simp
    from c(1) have "(p @ e) @ q = (p' @ e') @ q'" by simp
    from append_eq_longer [OF this less]
    obtain us where us: "p @ e = (p' @ e') @ us" "q' = us @ q" and "us \<noteq> []" by blast
    from \<open>us \<noteq> []\<close> obtain u us' where u: "us = u # us'" by (cases us) auto
    with us(2) c(3) have "u = CHR ''?''" by (simp add: query_tail_def)
    with u us(1) have "CHR ''?'' \<in> set (p @ e)" by (metis in_set_conv_decomp append.assoc)
    with p ci_eq_no_question [OF e ext] show False by simp
  qed
  with e q show ?thesis unfolding leftmost_cut_def by blast
qed

subsection \<open>What is retried, and which error comes out\<close>

text \<open>
  C5 (as amended).  When the fetch of a URL fails and the URL ends in \<open>.png\<close> or
  \<open>.gif\<close> (in any case, optionally followed by a query string), the fetch is retried
  exactly once, and the outcome of the retry is the outcome of the whole: its bytes
  when it succeeds, and the error of the retry when it fails too.  The URL that is
  retried is the first one with one extension replaced and the text before and after
  it kept: the leftmost \<open>.png\<close> that is followed by the end of the URL or by a query
  becomes \<open>.gif\<close>; only when the URL has no such \<open>.png\<close> does the leftmost such \<open>.gif\<close>
  become \<open>.png\<close>.  There is exactly one leftmost cut, so this names one URL.  When
  the URL has neither extension there is no retry and the error of the only fetch is
  the outcome.
\<close>

theorem fetchImageWithFallback_retry:
  assumes "fetchBuffer url = Inl err"
  shows "(ends_in_ext ''.png'' url \<longrightarrow>
            (\<exists>p e q. leftmost_cut ''.png'' url p e q
               \<and> (\<forall>p' e' q'. leftmost_cut ''.png'' url p' e' q' \<longrightarrow> p' = p \<and> e' = e \<and> q' = q)
               \<and> fetchImageWithFallback fetchBuffer url
                   = ([url, p @ ''.gif'' @ q], fetchBuffer (p @ ''.gif'' @ q))))
       \<and> (\<not> ends_in_ext ''.png'' url \<and> ends_in_ext ''.gif'' url \<longrightarrow>
            (\<exists>p e q. leftmost_cut ''.gif'' url p e q
               \<and> (\<forall>p' e' q'. leftmost_cut ''.gif'' url p' e' q' \<longrightarrow> p' = p \<and> e' = e \<and> q' = q)
               \<and> fetchImageWithFallback fetchBuffer url
                   = ([url, p @ ''.png'' @ q], fetchBuffer (p @ ''.png'' @ q))))
       \<and> (\<not> ends_in_ext ''.png'' url \<and> \<not> ends_in_ext ''.gif'' url \<longrightarrow>
            fetchImageWithFallback fetchBuffer url = ([url], Inl err))"
proof (intro conjI impI)
  assume a: "ends_in_ext ''.png'' url"
  then have ne: "url \<noteq> []" using ends_in_ext_nonempty by blast
  from a obtain p q where pq: "regex_exec ''.png'' url = Some (p, q)"
    using regex_exec_iff [of "''.png''" url] by auto
  from regex_exec_leftmost_cut [OF pq] obtain e where e: "leftmost_cut ''.png'' url p e q" ..
  have "swapImageExtension url = Some (p @ ''.gif'' @ q)"
    using pq ne by (simp add: swapImageExtension_def)
  then have "fetchImageWithFallback fetchBuffer url
      = ([url, p @ ''.gif'' @ q], fetchBuffer (p @ ''.gif'' @ q))"
    using assms by (simp add: fetchImageWithFallback_def)
  with e leftmost_cut_unique [OF e]
  show "\<exists>p e q. leftmost_cut ''.png'' url p e q
      \<and> (\<forall>p' e' q'. leftmost_cut ''.png'' url p' e' q' \<longrightarrow> p' = p \<and> e' = e \<and> q' = q)
      \<and> fetchImageWithFallback fetchBuffer url
          = ([url, p @ ''.gif'' @ q], fetchBuffer (p @ ''.gif'' @ q))"
    by blast
next
  assume a: "\<not> ends_in_ext ''.png'' url \<and> ends_in_ext ''.gif'' url"
  then have ne: "url \<noteq> []" using ends_in_ext_nonempty by blast
  from a have np: "regex_exec ''.png'' url = None"
    using regex_exec_iff [of "''.png''" url] by blast
  from a obtain p q where pq: "regex_exec ''.gif'' url = Some (p, q)"
    using regex_exec_iff [of "''.gif''" url] by auto
  from regex_exec_leftmost_cut [OF pq] obtain e where e: "leftmost_cut ''.gif'' url p e q" ..
  have "swapImageExtension url = Some (p @ ''.png'' @ q)"
    using np pq ne by (simp add: swapImageExtension_def)
  then have "fetchImageWithFallback fetchBuffer url
      = ([url, p @ ''.png'' @ q], fetchBuffer (p @ ''.png'' @ q))"
    using assms by (simp add: fetchImageWithFallback_def)
  with e leftmost_cut_unique [OF e]
  show "\<exists>p e q. leftmost_cut ''.gif'' url p e q
      \<and> (\<forall>p' e' q'. leftmost_cut ''.gif'' url p' e' q' \<longrightarrow> p' = p \<and> e' = e \<and> q' = q)
      \<and> fetchImageWithFallback fetchBuffer url
          = ([url, p @ ''.png'' @ q], fetchBuffer (p @ ''.png'' @ q))"
    by blast
next
  assume "\<not> ends_in_ext ''.png'' url \<and> \<not> ends_in_ext ''.gif'' url"
  then have "swapImageExtension url = None"
    using swapImageExtension_None by blast
  with assms show "fetchImageWithFallback fetchBuffer url = ([url], Inl err)"
    by (simp add: fetchImageWithFallback_def)
qed

theorem fetchImageWithFallback_retry_witness:
  "fetchImageWithFallback fetch_all_404 ''https://cdn/floor/Wood.PNG?v=2''
     = ([''https://cdn/floor/Wood.PNG?v=2'', ''https://cdn/floor/Wood.gif?v=2''],
        Inl (Error ''HTTP 404 for https://cdn/floor/Wood.gif?v=2''))
   \<and> fetchImageWithFallback fetch_all_404 ''https://cdn/pet.gif''
     = ([''https://cdn/pet.gif'', ''https://cdn/pet.png''],
        Inl (Error ''HTTP 404 for https://cdn/pet.png''))
   \<and> fetchImageWithFallback fetch_all_404 ''https://cdn/floor/wood.webp''
     = ([''https://cdn/floor/wood.webp''], Inl (Error ''HTTP 404 for https://cdn/floor/wood.webp''))"
proof -
  let ?u1 = "''https://cdn/floor/Wood.PNG?v=2''"
  let ?u2 = "''https://cdn/pet.gif''"
  let ?u3 = "''https://cdn/floor/wood.webp''"
  have f1: "fetch_all_404 ?u1 = Inl (Error (''HTTP 404 for '' @ ?u1))"
    and f2: "fetch_all_404 ?u2 = Inl (Error (''HTTP 404 for '' @ ?u2))"
    and f3: "fetch_all_404 ?u3 = Inl (Error (''HTTP 404 for '' @ ?u3))"
    by (simp_all add: fetch_all_404_def)
  have r1: "regex_exec ''.png'' ?u1 = Some (''https://cdn/floor/Wood'', ''?v=2'')"
    by (simp add: match_here_def query_tail_def ci_eq_def is_line_terminator_def)
  have r2: "regex_exec ''.png'' ?u2 = None"
    by (simp add: match_here_def query_tail_def ci_eq_def)
  have r2': "regex_exec ''.gif'' ?u2 = Some (''https://cdn/pet'', [])"
    by (simp add: match_here_def query_tail_def ci_eq_def)
  have r3: "regex_exec ''.png'' ?u3 = None"
    by (simp add: match_here_def query_tail_def ci_eq_def)
  have r3': "regex_exec ''.gif'' ?u3 = None"
    by (simp add: match_here_def query_tail_def ci_eq_def)
  have e1: "ends_in_ext ''.png'' ?u1" using r1 regex_exec_iff [of "''.png''" ?u1] by simp
  have e2: "\<not> ends_in_ext ''.png'' ?u2 \<and> ends_in_ext ''.gif'' ?u2"
    using r2 r2' regex_exec_iff [of "''.png''" ?u2] regex_exec_iff [of "''.gif''" ?u2] by simp
  have e3: "\<not> ends_in_ext ''.png'' ?u3 \<and> \<not> ends_in_ext ''.gif'' ?u3"
    using r3 r3' regex_exec_iff [of "''.png''" ?u3] regex_exec_iff [of "''.gif''" ?u3] by simp
  from regex_exec_leftmost_cut [OF r1]
  obtain x1 where c1: "leftmost_cut ''.png'' ?u1 ''https://cdn/floor/Wood'' x1 ''?v=2''" ..
  from regex_exec_leftmost_cut [OF r2']
  obtain x2 where c2: "leftmost_cut ''.gif'' ?u2 ''https://cdn/pet'' x2 []" ..
  from fetchImageWithFallback_retry [of fetch_all_404 ?u1, OF f1] e1 c1
  have "fetchImageWithFallback fetch_all_404 ?u1
     = ([?u1, ''https://cdn/floor/Wood'' @ ''.gif'' @ ''?v=2''],
        fetch_all_404 (''https://cdn/floor/Wood'' @ ''.gif'' @ ''?v=2''))"
    by blast
  moreover
  from fetchImageWithFallback_retry [of fetch_all_404 ?u2, OF f2] e2 c2
  have "fetchImageWithFallback fetch_all_404 ?u2
     = ([?u2, ''https://cdn/pet'' @ ''.png'' @ []], fetch_all_404 (''https://cdn/pet'' @ ''.png'' @ []))"
    by blast
  moreover
  from fetchImageWithFallback_retry [of fetch_all_404 ?u3, OF f3] e3
  have "fetchImageWithFallback fetch_all_404 ?u3 = ([?u3], Inl (Error (''HTTP 404 for '' @ ?u3)))"
    by blast
  ultimately show ?thesis by (simp add: fetch_all_404_def)
qed

text \<open>
  The claim as stated fails where both fetches fail: the error that comes out is the
  one of the retry (it names the swapped URL), not the one of the first fetch.  It
  also fails on the URL that is retried when a \<open>.gif\<close> is followed by a query ending in
  \<open>.png\<close>: the extension is kept and the end of the query is rewritten.
\<close>

theorem fetchImageWithFallback_error_counterexample:
  "fetch_all_404 ''https://cdn/floor/wood.png''
     = Inl (Error ''HTTP 404 for https://cdn/floor/wood.png'')
   \<and> fetchImageWithFallback fetch_all_404 ''https://cdn/floor/wood.png''
     = ([''https://cdn/floor/wood.png'', ''https://cdn/floor/wood.gif''],
        Inl (Error ''HTTP 404 for https://cdn/floor/wood.gif''))
   \<and> snd (fetchImageWithFallback fetch_all_404 ''https://cdn/floor/wood.png'')
     \<noteq> fetch_all_404 ''https://cdn/floor/wood.png''
   \<and> fst (fetchImageWithFallback fetch_all_404 ''https://cdn/pet.gif?skin=red.png'')
     = [''https://cdn/pet.gif?skin=red.png'', ''https://cdn/pet.gif?skin=red.gif'']"
  by (simp add: fetchImageWithFallback_def fetch_all_404_def swapImageExtension_def
      match_here_def query_tail_def ci_eq_def is_line_terminator_def)

section \<open>The bounded parallel map: \<open>mapWithConcurrency\<close> (lines 374-394)\<close>

text \<open>
  A promise ends in one of three ways: it is fulfilled with a value, it is rejected with
  an error, or it stays pending for ever (not returning is a value of the model).
\<close>

datatype 'a promise_result = Fulfilled 'a | Rejected js_error | Pending_forever

text \<open>
  A slot of the array \<open>results\<close>: \<open>new Array(n)\<close> leaves every slot empty,
  \<open>results[i] = res\<close> stores the value of the mapper, and \<open>results[i] = undefined\<close>
  is what the \<open>catch\<close> handler stores.
\<close>

datatype 'b slot = Empty_slot | Filled 'b | Undefined_slot

text \<open>
  The variables the closure \<open>next\<close> shares with the promise chains: \<open>index\<close>,
  \<open>active\<close> and \<open>results\<close>, whether \<open>resolve(results)\<close> has been called, and
  (the state of the event loop) the items whose chain has been started and has not yet
  run its \<open>finally\<close> handler.
\<close>

record 'b mwc_state =
  index :: nat
  active :: int
  results :: "'b slot list"
  resolved :: bool
  running :: "nat list"

text \<open>The \<open>while\<close> loop of \<open>next\<close>: start chains while \<open>active < limit\<close> and items remain.\<close>

function start_chains :: "int \<Rightarrow> nat \<Rightarrow> 'b mwc_state \<Rightarrow> 'b mwc_state" where
  "start_chains limit n s =
     (if active s < limit \<and> index s < n
      then start_chains limit n
             (s\<lparr>index := index s + 1, active := active s + 1,
                running := running s @ [index s]\<rparr>)
      else s)"
  by pat_completeness auto
termination
  by (relation "measure (\<lambda>(limit, n, s). n - index s)") auto

declare start_chains.simps [simp del]

text \<open>
  \<open>next()\<close>: resolve when every item has been started and no chain is active; return
  when every item has been started; otherwise run the loop.
\<close>

definition next_call :: "int \<Rightarrow> nat \<Rightarrow> 'b mwc_state \<Rightarrow> 'b mwc_state" where
  "next_call limit n s =
     (if index s \<ge> n \<and> active s = 0 then s\<lparr>resolved := True\<rparr>
      else if index s \<ge> n then s
      else start_chains limit n s)"

text \<open>
  The chain of item \<open>i\<close> runs to its end: the mapper is called on \<open>items[i]\<close> and \<open>i\<close>;
  its result \<open>Some res\<close> (it returned, or its promise was fulfilled) is stored, and for
  \<open>None\<close> (it threw, or its promise was rejected) \<open>undefined\<close> is stored; then
  \<open>finally\<close> decrements \<open>active\<close> and calls \<open>next()\<close>.
\<close>

definition slot_of :: "'b option \<Rightarrow> 'b slot" where
  "slot_of r = (case r of Some res \<Rightarrow> Filled res | None \<Rightarrow> Undefined_slot)"

definition finish_chain ::
  "'a list \<Rightarrow> ('a \<Rightarrow> nat \<Rightarrow> 'b option) \<Rightarrow> nat \<Rightarrow> 'b mwc_state \<Rightarrow> 'b mwc_state" where
  "finish_chain items mapper i s =
     s\<lparr>results := (results s)[i := slot_of (mapper (items ! i) i)],
       active := active s - 1,
       running := remove1 i (running s)\<rparr>"

definition chain_done ::
  "int \<Rightarrow> 'a list \<Rightarrow> ('a \<Rightarrow> nat \<Rightarrow> 'b option) \<Rightarrow> nat \<Rightarrow> 'b mwc_state \<Rightarrow> 'b mwc_state" where
  "chain_done limit items mapper i s =
     next_call limit (length items) (finish_chain items mapper i s)"

text \<open>
  The event loop: while a chain is running, one of them finishes next.  Which one is the
  choice of the scheduler \<open>pick\<close>, a function of the list of running items (the choice
  is taken modulo the length of that list).  When none is running nothing can happen any
  more.
\<close>

definition picked :: "(nat list \<Rightarrow> nat) \<Rightarrow> nat list \<Rightarrow> nat" where
  "picked pick rs = rs ! (pick rs mod length rs)"

lemma start_chains_step:
  "active s < limit \<Longrightarrow> index s < n \<Longrightarrow>
   start_chains limit n s =
     start_chains limit n
       (s\<lparr>index := index s + 1, active := active s + 1, running := running s @ [index s]\<rparr>)"
  by (subst start_chains.simps) simp

lemma start_chains_stop:
  "\<not> (active s < limit \<and> index s < n) \<Longrightarrow> start_chains limit n s = s"
  by (subst start_chains.simps) auto

lemma start_chains_measure:
  "(n - index (start_chains limit n s)) + length (running (start_chains limit n s))
     = (n - index s) + length (running s)"
proof (induction limit n s rule: start_chains.induct)
  case (1 limit n s)
  show ?case
  proof (cases "active s < limit \<and> index s < n")
    case True
    define s' where "s' = s\<lparr>index := index s + 1, active := active s + 1,
                running := running s @ [index s]\<rparr>"
    have unfold: "start_chains limit n s = start_chains limit n s'"
      using True unfolding s'_def by (simp add: start_chains_step)
    have "(n - index (start_chains limit n s')) + length (running (start_chains limit n s'))
        = (n - index s') + length (running s')"
      using 1 [OF True] unfolding s'_def .
    also have "\<dots> = (n - index s) + length (running s)"
    proof -
      from True have "index s < n" by simp
      then have "Suc (n - Suc (index s)) = n - index s" by arith
      then show ?thesis by (simp add: s'_def)
    qed
    finally show ?thesis by (simp add: unfold)
  next
    case False
    then have "start_chains limit n s = s" by (rule start_chains_stop)
    then show ?thesis by simp
  qed
qed

lemma next_call_measure:
  "(n - index (next_call limit n s)) + length (running (next_call limit n s))
     = (n - index s) + length (running s)"
  by (simp add: next_call_def start_chains_measure)

lemma chain_done_measure:
  assumes "running s \<noteq> []"
  shows "(length items - index (chain_done limit items mapper (picked pick (running s)) s))
       + length (running (chain_done limit items mapper (picked pick (running s)) s))
       < (length items - index s) + length (running s)"
proof -
  have "picked pick (running s) \<in> set (running s)"
    using assms by (simp add: picked_def)
  then have "length (remove1 (picked pick (running s)) (running s)) < length (running s)"
    using assms by (simp add: length_remove1)
  then show ?thesis
    by (simp add: chain_done_def finish_chain_def next_call_measure)
qed

function event_loop ::
  "(nat list \<Rightarrow> nat) \<Rightarrow> int \<Rightarrow> 'a list \<Rightarrow> ('a \<Rightarrow> nat \<Rightarrow> 'b option) \<Rightarrow> 'b mwc_state
     \<Rightarrow> 'b mwc_state" where
  "event_loop pick limit items mapper s =
     (if running s = [] then s
      else event_loop pick limit items mapper
             (chain_done limit items mapper (picked pick (running s)) s))"
  by pat_completeness auto
termination
  by (relation "measure (\<lambda>(pick, limit, items, mapper, s).
        (length items - index s) + length (running s))")
     (auto simp: chain_done_measure)

declare event_loop.simps [simp del]

text \<open>
  \<open>mapWithConcurrency(items, limit, mapper)\<close>: the first call of \<open>next()\<close>, then the event
  loop.  The promise is fulfilled with \<open>results\<close> when \<open>resolve\<close> has been called, and
  stays pending otherwise; nothing calls \<open>reject\<close>.
\<close>

definition mapWithConcurrency ::
  "(nat list \<Rightarrow> nat) \<Rightarrow> 'a list \<Rightarrow> int \<Rightarrow> ('a \<Rightarrow> nat \<Rightarrow> 'b option)
     \<Rightarrow> 'b slot list promise_result" where
  "mapWithConcurrency pick items limit mapper =
     (let s0 = \<lparr>index = 0, active = 0, results = replicate (length items) Empty_slot,
                resolved = False, running = []\<rparr>;
          s = event_loop pick limit items mapper (next_call limit (length items) s0)
      in if resolved s then Fulfilled (results s) else Pending_forever)"

text \<open>Concrete inputs used below: two schedulers, and a mapper that fails on every odd
  index.\<close>

definition pick_first :: "nat list \<Rightarrow> nat" where
  "pick_first rs = 0"

definition pick_last :: "nat list \<Rightarrow> nat" where
  "pick_last rs = length rs - 1"

definition mapper_even :: "nat \<Rightarrow> nat \<Rightarrow> nat option" where
  "mapper_even x i = (if even i then Some (x + 1) else None)"

subsection \<open>The invariant of the event loop\<close>

definition mwc_inv ::
  "'a list \<Rightarrow> ('a \<Rightarrow> nat \<Rightarrow> 'b option) \<Rightarrow> 'b mwc_state \<Rightarrow> bool" where
  "mwc_inv items mapper s \<longleftrightarrow>
     index s \<le> length items
     \<and> active s = int (length (running s))
     \<and> distinct (running s)
     \<and> (\<forall>i \<in> set (running s). i < index s)
     \<and> length (results s) = length items
     \<and> (\<forall>i < index s. i \<notin> set (running s) \<longrightarrow>
           results s ! i = slot_of (mapper (items ! i) i))"

definition mwc_post :: "int \<Rightarrow> nat \<Rightarrow> 'b mwc_state \<Rightarrow> bool" where
  "mwc_post limit n s \<longleftrightarrow>
     (index s < n \<longrightarrow> limit \<le> active s) \<and> (running s = [] \<and> n \<le> index s \<longrightarrow> resolved s)"

lemma start_chains_inv:
  "mwc_inv items mapper s \<Longrightarrow> mwc_inv items mapper (start_chains limit (length items) s)"
proof (induction limit "length items" s rule: start_chains.induct)
  case (1 limit s)
  show ?case
  proof (cases "active s < limit \<and> index s < length items")
    case True
    define s' where "s' = s\<lparr>index := index s + 1, active := active s + 1,
                running := running s @ [index s]\<rparr>"
    have eq: "start_chains limit (length items) s = start_chains limit (length items) s'"
      using True unfolding s'_def by (simp add: start_chains_step)
    have "mwc_inv items mapper s'"
      using "1.prems" True unfolding mwc_inv_def s'_def
      by (auto simp: less_Suc_eq)
    then have "mwc_inv items mapper (start_chains limit (length items) s')"
      using "1.hyps" [OF True] unfolding s'_def by simp
    then show ?thesis by (simp add: eq)
  next
    case False
    then have "start_chains limit (length items) s = s" by (rule start_chains_stop)
    with "1.prems" show ?thesis by simp
  qed
qed

lemma start_chains_post:
  "\<not> (active (start_chains limit n s) < limit \<and> index (start_chains limit n s) < n)"
proof (induction limit n s rule: start_chains.induct)
  case (1 limit n s)
  show ?case
  proof (cases "active s < limit \<and> index s < n")
    case True
    then have "start_chains limit n s = start_chains limit n
        (s\<lparr>index := index s + 1, active := active s + 1, running := running s @ [index s]\<rparr>)"
      by (simp add: start_chains_step)
    with 1 [OF True] show ?thesis by simp
  next
    case False
    then have "start_chains limit n s = s" by (rule start_chains_stop)
    with False show ?thesis by simp
  qed
qed

lemma start_chains_resolved: "resolved (start_chains limit n s) = resolved s"
proof (induction limit n s rule: start_chains.induct)
  case (1 limit n s)
  show ?case
  proof (cases "active s < limit \<and> index s < n")
    case True
    then have "start_chains limit n s = start_chains limit n
        (s\<lparr>index := index s + 1, active := active s + 1, running := running s @ [index s]\<rparr>)"
      by (simp add: start_chains_step)
    with 1 [OF True] show ?thesis by simp
  next
    case False
    then have "start_chains limit n s = s" by (rule start_chains_stop)
    then show ?thesis by simp
  qed
qed

lemma next_call_inv:
  "mwc_inv items mapper s \<Longrightarrow> mwc_inv items mapper (next_call limit (length items) s)"
  using start_chains_inv [of items mapper s limit]
  by (auto simp: next_call_def mwc_inv_def)

lemma start_chains_running:
  "running s \<noteq> [] \<Longrightarrow> running (start_chains limit n s) \<noteq> []"
proof (induction limit n s rule: start_chains.induct)
  case (1 limit n s)
  show ?case
  proof (cases "active s < limit \<and> index s < n")
    case True
    then have "start_chains limit n s = start_chains limit n
        (s\<lparr>index := index s + 1, active := active s + 1, running := running s @ [index s]\<rparr>)"
      by (simp add: start_chains_step)
    with 1(1) [OF True] show ?thesis by simp
  next
    case False
    then have "start_chains limit n s = s" by (rule start_chains_stop)
    with "1.prems" show ?thesis by simp
  qed
qed

lemma start_chains_started:
  "running (start_chains limit n s) = [] \<Longrightarrow> start_chains limit n s = s"
proof (cases "active s < limit \<and> index s < n")
  case True
  assume empty: "running (start_chains limit n s) = []"
  from True have "start_chains limit n s = start_chains limit n
      (s\<lparr>index := index s + 1, active := active s + 1, running := running s @ [index s]\<rparr>)"
    by (simp add: start_chains_step)
  moreover have "running (start_chains limit n
      (s\<lparr>index := index s + 1, active := active s + 1, running := running s @ [index s]\<rparr>))
      \<noteq> []"
    by (rule start_chains_running) simp
  ultimately show ?thesis using empty by simp
next
  case False
  then show ?thesis by (simp add: start_chains_stop)
qed

lemma next_call_post:
  assumes "mwc_inv items mapper s"
  shows "mwc_post limit (length items) (next_call limit (length items) s)"
proof (cases "length items \<le> index s")
  case True
  from assms have "running s = [] \<Longrightarrow> active s = 0" by (simp add: mwc_inv_def)
  with True show ?thesis by (auto simp: next_call_def mwc_post_def)
next
  case False
  then have eq: "next_call limit (length items) s = start_chains limit (length items) s"
    by (simp add: next_call_def)
  show ?thesis
    unfolding mwc_post_def eq
  proof (intro conjI impI)
    assume "index (start_chains limit (length items) s) < length items"
    with start_chains_post [of limit "length items" s]
    show "limit \<le> active (start_chains limit (length items) s)" by simp
  next
    assume a: "running (start_chains limit (length items) s) = []
        \<and> length items \<le> index (start_chains limit (length items) s)"
    then have "start_chains limit (length items) s = s" by (simp add: start_chains_started)
    with a False show "resolved (start_chains limit (length items) s)" by simp
  qed
qed

lemma finish_chain_inv:
  assumes "mwc_inv items mapper s" and "i \<in> set (running s)"
  shows "mwc_inv items mapper (finish_chain items mapper i s)"
proof -
  define s' where "s' = finish_chain items mapper i s"
  from assms have i: "i < index s" "index s \<le> length items"
    "length (results s) = length items" "distinct (running s)"
    by (auto simp: mwc_inv_def)
  have len: "length (running s) = Suc (length (remove1 i (running s)))"
    using assms(2) by (simp add: length_remove1) (metis Suc_pred length_pos_if_in_set)
  have "mwc_inv items mapper s'"
    unfolding mwc_inv_def
  proof (intro conjI)
    show "index s' \<le> length items" using i by (simp add: s'_def finish_chain_def)
    show "active s' = int (length (running s'))"
      using assms(1) len by (simp add: s'_def finish_chain_def mwc_inv_def)
    show "distinct (running s')" using i by (simp add: s'_def finish_chain_def)
    show "\<forall>j \<in> set (running s'). j < index s'"
      using assms(1) i(4) by (auto simp: s'_def finish_chain_def mwc_inv_def)
    show "length (results s') = length items" using i by (simp add: s'_def finish_chain_def)
    show "\<forall>j < index s'. j \<notin> set (running s') \<longrightarrow>
        results s' ! j = slot_of (mapper (items ! j) j)"
    proof (intro allI impI)
      fix j assume j: "j < index s'" "j \<notin> set (running s')"
      show "results s' ! j = slot_of (mapper (items ! j) j)"
      proof (cases "j = i")
        case True
        with i show ?thesis by (simp add: s'_def finish_chain_def)
      next
        case False
        with j i(4) have "j \<notin> set (running s)" by (simp add: s'_def finish_chain_def)
        with j(1) assms(1) have "results s ! j = slot_of (mapper (items ! j) j)"
          by (simp add: s'_def finish_chain_def mwc_inv_def)
        with False show ?thesis by (simp add: s'_def finish_chain_def)
      qed
    qed
  qed
  then show ?thesis by (simp add: s'_def)
qed

lemma chain_done_inv:
  assumes "mwc_inv items mapper s" and "i \<in> set (running s)"
  shows "mwc_inv items mapper (chain_done limit items mapper i s)"
  unfolding chain_done_def by (rule next_call_inv) (rule finish_chain_inv [OF assms])

lemma chain_done_post:
  assumes "mwc_inv items mapper s" and "i \<in> set (running s)"
  shows "mwc_post limit (length items) (chain_done limit items mapper i s)"
  unfolding chain_done_def by (rule next_call_post) (rule finish_chain_inv [OF assms])

lemma picked_running: "rs \<noteq> [] \<Longrightarrow> picked pick rs \<in> set rs"
  by (simp add: picked_def)

lemma event_loop_inv:
  assumes "mwc_inv items mapper s" and "mwc_post limit (length items) s"
  shows "mwc_inv items mapper (event_loop pick limit items mapper s)
       \<and> mwc_post limit (length items) (event_loop pick limit items mapper s)
       \<and> running (event_loop pick limit items mapper s) = []"
  using assms
proof (induction pick limit items mapper s rule: event_loop.induct)
  case (1 pick limit items mapper s)
  show ?case
  proof (cases "running s = []")
    case True
    then have "event_loop pick limit items mapper s = s"
      by (subst event_loop.simps) simp
    with True "1.prems" show ?thesis by simp
  next
    case False
    define s' where "s' = chain_done limit items mapper (picked pick (running s)) s"
    have eq: "event_loop pick limit items mapper s = event_loop pick limit items mapper s'"
      using False unfolding s'_def by (subst event_loop.simps) simp
    have p: "picked pick (running s) \<in> set (running s)"
      using False by (rule picked_running)
    have "mwc_inv items mapper s'"
      unfolding s'_def using "1.prems"(1) p by (rule chain_done_inv)
    moreover have "mwc_post limit (length items) s'"
      unfolding s'_def using "1.prems"(1) p by (rule chain_done_post)
    ultimately show ?thesis
      using "1.IH" [OF False] unfolding s'_def [symmetric] eq by blast
  qed
qed


text \<open>With a limit of at least 1 every slot is filled, whatever the scheduler does.\<close>

lemma mapWithConcurrency_fulfilled:
  fixes mapper :: "'a \<Rightarrow> nat \<Rightarrow> 'b option"
  assumes "1 \<le> limit"
  shows "mapWithConcurrency pick items limit mapper
       = Fulfilled (map (\<lambda>i. slot_of (mapper (items ! i) i)) [0 ..< length items])"
proof -
  define s0 :: "'b mwc_state" where
    "s0 = \<lparr>index = 0, active = 0, results = replicate (length items) Empty_slot,
           resolved = False, running = []\<rparr>"
  define s where "s = event_loop pick limit items mapper (next_call limit (length items) s0)"
  have "mwc_inv items mapper s0" by (simp add: mwc_inv_def s0_def)
  then have "mwc_inv items mapper (next_call limit (length items) s0)"
    and "mwc_post limit (length items) (next_call limit (length items) s0)"
    by (rule next_call_inv, rule next_call_post)
  then have fin: "mwc_inv items mapper s" "mwc_post limit (length items) s" "running s = []"
    unfolding s_def using event_loop_inv by blast+
  from fin(1,3) have act: "active s = 0" by (simp add: mwc_inv_def)
  with fin(2) assms have all: "length items \<le> index s" by (auto simp: mwc_post_def)
  with fin(2,3) have res: "resolved s" by (simp add: mwc_post_def)
  have "results s = map (\<lambda>i. slot_of (mapper (items ! i) i)) [0 ..< length items]"
  proof (rule nth_equalityI)
    show "length (results s)
        = length (map (\<lambda>i. slot_of (mapper (items ! i) i)) [0 ..< length items])"
      using fin(1) by (simp add: mwc_inv_def)
  next
    fix i assume "i < length (results s)"
    then have i: "i < length items" using fin(1) by (simp add: mwc_inv_def)
    with all fin(1,3) have "results s ! i = slot_of (mapper (items ! i) i)"
      by (simp add: mwc_inv_def)
    with i show "results s ! i
        = map (\<lambda>i. slot_of (mapper (items ! i) i)) [0 ..< length items] ! i"
      by simp
  qed
  with res show ?thesis
    by (simp add: mapWithConcurrency_def s0_def [symmetric] s_def [symmetric] Let_def)
qed

text \<open>
  C7 (as amended).  For every list of items, every limit of at least 1, every mapper
  whose promise settles for each item, and every order in which the mappers finish,
  \<open>mapWithConcurrency\<close> is fulfilled (it is never rejected and does not stay pending) with
  a list as long as the items, whose slot \<open>i\<close> holds the result of the mapper for item
  \<open>i\<close>, or \<open>undefined\<close> when the mapper threw or rejected for that item.
\<close>

theorem mapWithConcurrency_slots:
  fixes mapper :: "'a \<Rightarrow> nat \<Rightarrow> 'b option"
  assumes "1 \<le> limit"
  shows "\<exists>rs. mapWithConcurrency pick items limit mapper = Fulfilled rs
           \<and> length rs = length items
           \<and> (\<forall>i < length items.
                 rs ! i = (case mapper (items ! i) i of
                             Some res \<Rightarrow> Filled res
                           | None \<Rightarrow> Undefined_slot))"
proof -
  let ?rs = "map (\<lambda>i. slot_of (mapper (items ! i) i)) [0 ..< length items]"
  have "mapWithConcurrency pick items limit mapper = Fulfilled ?rs"
    using assms by (rule mapWithConcurrency_fulfilled)
  moreover have "length ?rs = length items" by simp
  moreover have "\<forall>i < length items.
      ?rs ! i = (case mapper (items ! i) i of Some res \<Rightarrow> Filled res | None \<Rightarrow> Undefined_slot)"
    by (simp add: slot_of_def)
  ultimately show ?thesis by blast
qed

theorem mapWithConcurrency_slots_witness:
  "\<exists>rs. mapWithConcurrency pick_last [10, 20, 30] 2 mapper_even = Fulfilled rs
      \<and> length rs = 3
      \<and> rs ! 0 = Filled 11 \<and> rs ! 1 = Undefined_slot \<and> rs ! 2 = Filled 31"
proof -
  have l: "(1::int) \<le> 2" by simp
  from mapWithConcurrency_slots [OF l, of pick_last "[10, 20, 30]" mapper_even]
  obtain rs where rs: "mapWithConcurrency pick_last [10, 20, 30] 2 mapper_even = Fulfilled rs"
    "length rs = length [10::nat, 20, 30]"
    "\<forall>i < length [10::nat, 20, 30].
       rs ! i = (case mapper_even ([10, 20, 30] ! i) i of
                   Some res \<Rightarrow> Filled res | None \<Rightarrow> Undefined_slot)"
    by blast
  from rs(3) have "rs ! 0 = Filled 11" by (simp add: mapper_even_def)
  moreover from rs(3) have "rs ! 1 = Undefined_slot"
    by (simp add: mapper_even_def)
  moreover from rs(3) have "rs ! 2 = Filled 31"
    by (simp add: mapper_even_def)
  ultimately show ?thesis using rs(1,2) by simp
qed

text \<open>
  The claim as stated, for every limit, fails at the limit 0 (as
  \<open>RENDER_FRAME_FETCH_CONCURRENCY=0\<close> sets it): the loop of \<open>next\<close> starts no chain, no
  chain ever calls \<open>next\<close> again, and the promise is never resolved.
\<close>

theorem mapWithConcurrency_limit_counterexample:
  "mapWithConcurrency pick_first [10, 20, 30] 0 mapper_even = Pending_forever"
  by (simp add: mapWithConcurrency_def next_call_def start_chains.simps event_loop.simps)

section \<open>JavaScript values\<close>

text \<open>
  A request body is a JSON value after \<open>JSON.parse\<close>.  Numbers are the finite doubles
  (each is a rational; the code under study compares and copies them and does no
  arithmetic on them), the two infinities (JSON text such as \<open>1e999\<close> parses to one) and
  \<open>NaN\<close> (which coercions produce).  An object is the list of its own properties; a
  property read finds the first entry with the key.  \<open>JUndefined\<close> is \<open>undefined\<close>; and
  \<open>JFunc\<close> is a built-in function, which one property read below can produce.
\<close>

datatype jsnum = Fin rat | PosInf | NegInf | NaN

datatype jsval =
    JUndefined
  | JNull
  | JBool bool
  | JNum jsnum
  | JStr string
  | JArr "jsval list"
  | JObj "(string \<times> jsval) list"
  | JFunc

definition nullish :: "jsval \<Rightarrow> bool" where
  "nullish v \<longleftrightarrow> v = JUndefined \<or> v = JNull"

text \<open>Truthiness, as \<open>!v\<close>, \<open>v || w\<close>, \<open>v ? a : b\<close> and \<open>Boolean(v)\<close> decide it.\<close>

fun truthy :: "jsval \<Rightarrow> bool" where
  "truthy JUndefined = False"
| "truthy JNull = False"
| "truthy (JBool b) = b"
| "truthy (JNum n) = (n \<noteq> Fin 0 \<and> n \<noteq> NaN)"
| "truthy (JStr s) = (s \<noteq> [])"
| "truthy (JArr xs) = True"
| "truthy (JObj kvs) = True"
| "truthy JFunc = True"

definition or_else :: "jsval \<Rightarrow> jsval \<Rightarrow> jsval" where
  \<comment> \<open>\<open>a || b\<close>\<close>
  "or_else a b = (if truthy a then a else b)"

definition nullish_or :: "jsval \<Rightarrow> jsval \<Rightarrow> jsval" where
  \<comment> \<open>\<open>a ?? b\<close>\<close>
  "nullish_or a b = (if nullish a then b else a)"

text \<open>
  \<open>get_prop v k\<close> is the optional read \<open>v?.k\<close>, and the plain read \<open>v.k\<close> where \<open>v\<close> is
  neither \<open>null\<close> nor \<open>undefined\<close> (a plain read on those raises a \<open>TypeError\<close>, which the
  functions below write out where the code reads plainly).  It is applied only to the
  property names the code reads: \<open>guild\<close>, \<open>user\<close>, \<open>layers\<close>, \<open>size\<close>, \<open>width\<close>,
  \<open>height\<close>, \<open>format\<close>, \<open>gifOptions\<close>, \<open>backgroundColorHex\<close>, \<open>type\<close>, \<open>key\<close>,
  \<open>url\<close>, \<open>draw\<close>, \<open>frames\<close>, \<open>x\<close>, \<open>y\<close>, \<open>w\<close>, \<open>h\<close>, \<open>delayMs\<close>, \<open>repeat\<close>,
  \<open>quality\<close>, \<open>transparent\<close>, \<open>transparentColorHex\<close>.  On an object the read finds
  an own property or gives \<open>undefined\<close>; on a string, \<open>repeat\<close> is the method
  \<open>String.prototype.repeat\<close> and the other names are \<open>undefined\<close>; on arrays, numbers and
  booleans all of these names are \<open>undefined\<close>.
\<close>

fun get_prop :: "jsval \<Rightarrow> string \<Rightarrow> jsval" where
  "get_prop (JObj kvs) k = (case map_of kvs k of Some v \<Rightarrow> v | None \<Rightarrow> JUndefined)"
| "get_prop (JStr s) k = (if k = ''repeat'' then JFunc else JUndefined)"
| "get_prop v k = JUndefined"

fun is_array :: "jsval \<Rightarrow> bool" where
  "is_array (JArr xs) = True"
| "is_array v = False"

fun elements :: "jsval \<Rightarrow> jsval list" where
  "elements (JArr xs) = xs"
| "elements v = []"

text \<open>
  The built-in functions whose text is not part of the repository are parameters of the
  model: the conversions between numbers and strings that \<open>String\<close> and \<open>Number\<close>
  perform, \<open>parseInt\<close> with a radix, \<open>JSON.stringify\<close>, and the SHA-1 digest in
  hexadecimal.  Every theorem holds for all of them.
\<close>

record js_builtins =
  number_to_string :: "jsnum \<Rightarrow> string"
  string_to_number :: "string \<Rightarrow> jsnum"
  parse_int :: "string \<Rightarrow> nat \<Rightarrow> jsnum"
  JSON_stringify :: "jsval \<Rightarrow> string"
  sha1_hex :: "string \<Rightarrow> string"

text \<open>Sequencing of computations that can raise.\<close>

definition bind_err :: "'e + 'a \<Rightarrow> ('a \<Rightarrow> 'e + 'b) \<Rightarrow> 'e + 'b" where
  "bind_err m f = (case m of Inl e \<Rightarrow> Inl e | Inr a \<Rightarrow> f a)"

fun map_err :: "('a \<Rightarrow> 'e + 'b) \<Rightarrow> 'a list \<Rightarrow> 'e + 'b list" where
  "map_err f [] = Inr []"
| "map_err f (x # xs) = bind_err (f x) (\<lambda>y. bind_err (map_err f xs) (\<lambda>ys. Inr (y # ys)))"

fun join_comma :: "string list \<Rightarrow> string" where
  "join_comma [] = []"
| "join_comma [s] = s"
| "join_comma (s # t # ss) = s @ '','' @ join_comma (t # ss)"

text \<open>
  \<open>String(v)\<close>.  An array is joined with commas, \<open>null\<close> and \<open>undefined\<close> elements giving
  the empty string.  An object gives \<open>[object Object]\<close> through \<open>Object.prototype.toString\<close>,
  unless it has an own property \<open>toString\<close>: a value parsed from JSON is not callable, the
  conversion finds no method that returns a primitive, and raises a \<open>TypeError\<close>.
\<close>

fun js_String :: "js_builtins \<Rightarrow> jsval \<Rightarrow> js_error + string"
  and js_Strings :: "js_builtins \<Rightarrow> jsval list \<Rightarrow> js_error + string list" where
  "js_String B JUndefined = Inr ''undefined''"
| "js_String B JNull = Inr ''null''"
| "js_String B (JBool b) = Inr (if b then ''true'' else ''false'')"
| "js_String B (JNum n) = Inr (number_to_string B n)"
| "js_String B (JStr s) = Inr s"
| "js_String B (JArr xs) =
     (case js_Strings B xs of Inl e \<Rightarrow> Inl e | Inr ss \<Rightarrow> Inr (join_comma ss))"
| "js_String B (JObj kvs) =
     (if ''toString'' \<in> fst ` set kvs then Inl TypeError else Inr ''[object Object]'')"
| "js_String B JFunc = Inr ''function repeat() { [native code] }''"
| "js_Strings B [] = Inr []"
| "js_Strings B (x # xs) =
     (case (if nullish x then Inr [] else js_String B x) of
        Inl e \<Rightarrow> Inl e
      | Inr s \<Rightarrow> (case js_Strings B xs of Inl e \<Rightarrow> Inl e | Inr ss \<Rightarrow> Inr (s # ss)))"

text \<open>
  \<open>Number(v)\<close>.  Arrays and objects are converted through their string, with the same
  \<open>TypeError\<close> for an object with an own property \<open>toString\<close>.
\<close>

fun js_Number :: "js_builtins \<Rightarrow> jsval \<Rightarrow> js_error + jsnum" where
  "js_Number B JUndefined = Inr NaN"
| "js_Number B JNull = Inr (Fin 0)"
| "js_Number B (JBool b) = Inr (Fin (if b then 1 else 0))"
| "js_Number B (JNum n) = Inr n"
| "js_Number B (JStr s) = Inr (string_to_number B s)"
| "js_Number B JFunc = Inr NaN"
| "js_Number B v = bind_err (js_String B v) (\<lambda>s. Inr (string_to_number B s))"

text \<open>\<open>a > b\<close> on numbers: false whenever one of them is \<open>NaN\<close>.\<close>

fun num_gt :: "jsnum \<Rightarrow> jsnum \<Rightarrow> bool" where
  "num_gt NaN b = False"
| "num_gt a NaN = False"
| "num_gt (Fin a) (Fin b) = (a > b)"
| "num_gt PosInf b = (b \<noteq> PosInf)"
| "num_gt a NegInf = (a \<noteq> NegInf)"
| "num_gt a b = False"

section \<open>The fingerprint: \<open>stableHashPayload\<close> (lines 335-372)\<close>

text \<open>
  A normalised rectangle: each coordinate is \<open>Number(d?.c || default)\<close>, where \<open>d\<close> is the
  \<open>draw\<close> property that was read and the defaults are given.
\<close>

definition norm_draw ::
  "js_builtins \<Rightarrow> jsval \<Rightarrow> jsval \<Rightarrow> jsval \<Rightarrow> jsval \<Rightarrow> jsval \<Rightarrow> js_error + jsval" where
  "norm_draw B d dx dy dw dh =
     bind_err (js_Number B (or_else (get_prop d ''x'') dx)) (\<lambda>x.
     bind_err (js_Number B (or_else (get_prop d ''y'') dy)) (\<lambda>y.
     bind_err (js_Number B (or_else (get_prop d ''w'') dw)) (\<lambda>w.
     bind_err (js_Number B (or_else (get_prop d ''h'') dh)) (\<lambda>h.
       Inr (JObj [(''x'', JNum x), (''y'', JNum y), (''w'', JNum w), (''h'', JNum h)])))))"

text \<open>
  One frame of a \<open>pet_gif_frames\<close> layer (lines 350-358); \<open>bd\<close> is \<open>base.draw\<close>, the
  normalised rectangle of the layer.  \<open>fr.url\<close> is a plain read.
\<close>

definition norm_frame :: "js_builtins \<Rightarrow> jsval \<Rightarrow> jsval \<Rightarrow> js_error + jsval" where
  "norm_frame B bd fr =
     (if nullish fr then Inl TypeError
      else
        bind_err (js_String B (or_else (get_prop fr ''url'') (JStr []))) (\<lambda>url.
        bind_err (norm_draw B (get_prop fr ''draw'')
                    (get_prop bd ''x'') (get_prop bd ''y'') (get_prop bd ''w'') (get_prop bd ''h''))
          (\<lambda>draw. Inr (JObj [(''url'', JStr url), (''draw'', draw)]))))"

text \<open>
  One layer (lines 337-361); \<open>sw\<close> and \<open>sh\<close> are \<open>size.w\<close> and \<open>size.h\<close>.  \<open>l.type\<close> is a
  plain read.  The property \<open>url\<close> is \<open>undefined\<close> when the layer has no truthy \<open>url\<close>.
\<close>

definition layer_frames ::
  "js_builtins \<Rightarrow> jsval \<Rightarrow> string \<Rightarrow> jsval \<Rightarrow> js_error + (string \<times> jsval) list" where
  \<comment> \<open>lines 349-359: the property \<open>frames\<close> that is added to \<open>base\<close>, or nothing;
      \<open>t\<close> is \<open>String(l.type)\<close>\<close>
  "layer_frames B draw t l =
     (if t = ''pet_gif_frames'' \<and> is_array (get_prop l ''frames'')
      then bind_err (map_err (norm_frame B draw) (elements (get_prop l ''frames'')))
             (\<lambda>frames. Inr [(''frames'', JArr frames)])
      else Inr [])"

definition norm_layer :: "js_builtins \<Rightarrow> jsval \<Rightarrow> jsval \<Rightarrow> jsval \<Rightarrow> js_error + jsval" where
  "norm_layer B sw sh l =
     (if nullish l then Inl TypeError
      else
        bind_err (js_String B (or_else (get_prop l ''type'') (JStr []))) (\<lambda>ty.
        bind_err (js_String B (or_else (get_prop l ''key'') (JStr []))) (\<lambda>ky.
        bind_err (if truthy (get_prop l ''url'')
                  then bind_err (js_String B (get_prop l ''url'')) (\<lambda>u. Inr (JStr u))
                  else Inr JUndefined) (\<lambda>url.
        bind_err (norm_draw B (get_prop l ''draw'') (JNum (Fin 0)) (JNum (Fin 0)) sw sh) (\<lambda>draw.
        bind_err (js_String B (get_prop l ''type'')) (\<lambda>t.
        bind_err (layer_frames B draw t l) (\<lambda>frames.
          Inr (JObj ([(''type'', JStr ty), (''key'', JStr ky), (''url'', url),
                      (''draw'', draw)] @ frames)))))))))"

text \<open>The options (lines 362-369), for a truthy \<open>payload.gifOptions\<close>.\<close>

definition norm_gifOptions :: "js_builtins \<Rightarrow> jsval \<Rightarrow> js_error + jsval" where
  "norm_gifOptions B g =
     bind_err (js_Number B (or_else (get_prop g ''delayMs'') (JNum (Fin 0)))) (\<lambda>delayMs.
     bind_err (js_Number B (nullish_or (get_prop g ''repeat'') (JNum (Fin 0)))) (\<lambda>rep.
     bind_err (js_Number B (or_else (get_prop g ''quality'') (JNum (Fin 0)))) (\<lambda>quality.
     bind_err (js_String B (or_else (get_prop g ''transparentColorHex'') (JStr []))) (\<lambda>tc.
     bind_err (js_String B (or_else (get_prop g ''backgroundColorHex'') (JStr []))) (\<lambda>bc.
       Inr (JObj [(''delayMs'', JNum delayMs), (''repeat'', JNum rep),
                  (''quality'', JNum quality),
                  (''transparent'',
                     JBool (truthy (or_else (get_prop g ''transparent'') (JBool False)))),
                  (''transparentColorHex'', JStr tc),
                  (''backgroundColorHex'', JStr bc)]))))))"

text \<open>
  The object that is serialised (line 370).  \<open>payload.layers\<close> is a plain read, and
  \<open>.map\<close> is called on \<open>payload.layers || []\<close>: a truthy value that is not an array has
  no callable \<open>map\<close>, and the call raises a \<open>TypeError\<close>.
\<close>

definition normalized_payload :: "js_builtins \<Rightarrow> jsval \<Rightarrow> js_error + jsval" where
  "normalized_payload B payload =
     (if nullish payload then Inl TypeError
      else
        let sw = or_else (get_prop (get_prop payload ''size'') ''width'') (JNum (Fin 300));
            sh = or_else (get_prop (get_prop payload ''size'') ''height'') (JNum (Fin 300));
            ls = or_else (get_prop payload ''layers'') (JArr [])
        in if \<not> is_array ls then Inl TypeError
           else
             bind_err (map_err (norm_layer B sw sh) (elements ls)) (\<lambda>layers.
             bind_err (if truthy (get_prop payload ''gifOptions'')
                       then norm_gifOptions B (get_prop payload ''gifOptions'')
                       else Inr JUndefined) (\<lambda>gifOptions.
               Inr (JObj [(''size'', JObj [(''w'', sw), (''h'', sh)]),
                          (''layers'', JArr layers),
                          (''format'', or_else (get_prop payload ''format'') (JStr ''png'')),
                          (''gifOptions'', gifOptions)]))))"

definition stableHashPayload :: "js_builtins \<Rightarrow> jsval \<Rightarrow> js_error + string" where
  "stableHashPayload B payload =
     bind_err (normalized_payload B payload) (\<lambda>data. Inr (sha1_hex B (JSON_stringify B data)))"

subsection \<open>Payloads that differ only in what the fingerprint does not read\<close>

text \<open>
  The values of \<open>type\<close>, \<open>key\<close>, \<open>url\<close>, of the coordinates and of the options are not
  hashed themselves: \<open>String\<close>, \<open>Number\<close> or \<open>Boolean\<close> is applied to them first.  Two
  values \<^emph>\<open>coerce alike\<close> when they are equal; or both are objects, and both have or
  both lack an own property \<open>toString\<close> (their keys and the order of the keys are free
  otherwise); or both are arrays of the same length whose elements coerce alike.
\<close>

fun coerce_sim :: "jsval \<Rightarrow> jsval \<Rightarrow> bool" where
  "coerce_sim (JObj kvs) (JObj kvs') \<longleftrightarrow>
     (''toString'' \<in> fst ` set kvs) = (''toString'' \<in> fst ` set kvs')"
| "coerce_sim (JArr xs) (JArr ys) \<longleftrightarrow> list_all2 coerce_sim xs ys"
| "coerce_sim a b \<longleftrightarrow> a = b"

text \<open>
  Two values agree on a list of property names when a read of each name gives values
  that coerce alike.  This holds in particular between an object and the same object
  with its keys in another order, or with other properties added, removed or changed.
\<close>

definition same_reads :: "string list \<Rightarrow> jsval \<Rightarrow> jsval \<Rightarrow> bool" where
  "same_reads ks a b = list_all (\<lambda>k. coerce_sim (get_prop a k) (get_prop b k)) ks"

definition rect_sim :: "jsval \<Rightarrow> jsval \<Rightarrow> bool" where
  "rect_sim d d' = same_reads [''x'', ''y'', ''w'', ''h''] d d'"

definition frame_sim :: "jsval \<Rightarrow> jsval \<Rightarrow> bool" where
  "frame_sim f f' \<longleftrightarrow>
     nullish f = nullish f' \<and> same_reads [''url''] f f'
     \<and> rect_sim (get_prop f ''draw'') (get_prop f' ''draw'')"

definition list_sim :: "(jsval \<Rightarrow> jsval \<Rightarrow> bool) \<Rightarrow> jsval \<Rightarrow> jsval \<Rightarrow> bool" where
  \<comment> \<open>two arrays of the same length, related element by element; or two values that are
      not arrays and equally truthy\<close>
  "list_sim R a b =
     (if is_array a \<or> is_array b
      then is_array a \<and> is_array b \<and> list_all2 R (elements a) (elements b)
      else truthy a = truthy b)"

definition layer_sim :: "jsval \<Rightarrow> jsval \<Rightarrow> bool" where
  "layer_sim l l' \<longleftrightarrow>
     nullish l = nullish l' \<and> same_reads [''type'', ''key'', ''url''] l l'
     \<and> rect_sim (get_prop l ''draw'') (get_prop l' ''draw'')
     \<and> list_sim frame_sim (get_prop l ''frames'') (get_prop l' ''frames'')"

definition gif_sim :: "jsval \<Rightarrow> jsval \<Rightarrow> bool" where
  "gif_sim g g' \<longleftrightarrow>
     truthy g = truthy g'
     \<and> same_reads [''delayMs'', ''repeat'', ''quality'', ''transparent'',
                    ''transparentColorHex'', ''backgroundColorHex''] g g'"

text \<open>
  The width and the height of \<open>size\<close> and the value of \<open>format\<close> go into the hashed
  object as they are (lines 336 and 370), with the order of the keys of every object
  inside them: two payloads have to agree on these three values exactly.
\<close>

definition payload_sim :: "jsval \<Rightarrow> jsval \<Rightarrow> bool" where
  "payload_sim p p' \<longleftrightarrow>
     nullish p = nullish p'
     \<and> get_prop (get_prop p ''size'') ''width'' = get_prop (get_prop p' ''size'') ''width''
     \<and> get_prop (get_prop p ''size'') ''height'' = get_prop (get_prop p' ''size'') ''height''
     \<and> list_sim layer_sim (get_prop p ''layers'') (get_prop p' ''layers'')
     \<and> get_prop p ''format'' = get_prop p' ''format''
     \<and> gif_sim (get_prop p ''gifOptions'') (get_prop p' ''gifOptions'')"

lemma coerce_sim_refl: "coerce_sim a a"
  by (induction a) (simp_all add: list_all2_same)

lemma coerce_sim_truthy: "coerce_sim a b \<Longrightarrow> truthy a = truthy b"
  by (cases a; cases b) simp_all

lemma coerce_sim_nullish: "coerce_sim a b \<Longrightarrow> nullish a = nullish b"
  by (cases a; cases b) (simp_all add: nullish_def)

lemma js_Strings_sim:
  assumes "list_all2 coerce_sim xs ys"
    and "\<And>x y. x \<in> set xs \<Longrightarrow> coerce_sim x y \<Longrightarrow> js_String B x = js_String B y"
  shows "js_Strings B xs = js_Strings B ys"
  using assms
proof (induction xs ys rule: list_all2_induct)
  case Nil
  then show ?case by simp
next
  case (Cons x xs y ys)
  have "js_String B x = js_String B y" using Cons.prems Cons.hyps(1) by simp
  moreover have "nullish x = nullish y" using Cons.hyps(1) by (rule coerce_sim_nullish)
  moreover have "js_Strings B xs = js_Strings B ys" using Cons.IH Cons.prems by simp
  ultimately show ?case by (simp split: sum.splits)
qed

lemma js_String_sim: "coerce_sim a b \<Longrightarrow> js_String B a = js_String B b"
proof (induction a arbitrary: b)
  case (JArr xs)
  then obtain ys where b: "b = JArr ys" and ys: "list_all2 coerce_sim xs ys"
    by (cases b) simp_all
  have "js_Strings B xs = js_Strings B ys"
    using ys JArr.IH by (rule js_Strings_sim)
  with b show ?case by simp
next
  case (JObj kvs)
  then show ?case by (cases b) simp_all
qed (cases b; simp)+

lemma js_Number_sim: "coerce_sim a b \<Longrightarrow> js_Number B a = js_Number B b"
  using js_String_sim [of a b B] by (cases a; cases b) simp_all

lemma js_String_or_else_sim:
  "coerce_sim a b \<Longrightarrow> js_String B (or_else a d) = js_String B (or_else b d)"
  using coerce_sim_truthy [of a b] js_String_sim [of a b B] by (simp add: or_else_def)

lemma js_Number_or_else_sim:
  "coerce_sim a b \<Longrightarrow> js_Number B (or_else a d) = js_Number B (or_else b d)"
  using coerce_sim_truthy [of a b] js_Number_sim [of a b B] by (simp add: or_else_def)

lemma js_Number_nullish_or_sim:
  "coerce_sim a b \<Longrightarrow> js_Number B (nullish_or a d) = js_Number B (nullish_or b d)"
  using coerce_sim_nullish [of a b] js_Number_sim [of a b B] by (simp add: nullish_or_def)

lemma truthy_or_else_sim:
  "coerce_sim a b \<Longrightarrow> truthy (or_else a d) = truthy (or_else b d)"
  using coerce_sim_truthy [of a b] by (simp add: or_else_def)

lemma norm_draw_sim:
  assumes "rect_sim d d'"
  shows "norm_draw B d dx dy dw dh = norm_draw B d' dx dy dw dh"
proof -
  from assms have x: "coerce_sim (get_prop d ''x'') (get_prop d' ''x'')"
    and y: "coerce_sim (get_prop d ''y'') (get_prop d' ''y'')"
    and w: "coerce_sim (get_prop d ''w'') (get_prop d' ''w'')"
    and h: "coerce_sim (get_prop d ''h'') (get_prop d' ''h'')"
    by (simp_all add: rect_sim_def same_reads_def)
  show ?thesis
    unfolding norm_draw_def js_Number_or_else_sim [OF x] js_Number_or_else_sim [OF y]
      js_Number_or_else_sim [OF w] js_Number_or_else_sim [OF h]
    by (rule refl)
qed

lemma norm_frame_sim:
  assumes "frame_sim f f'"
  shows "norm_frame B bd f = norm_frame B bd f'"
proof -
  from assms have n: "nullish f = nullish f'"
    and u: "coerce_sim (get_prop f ''url'') (get_prop f' ''url'')"
    and d: "rect_sim (get_prop f ''draw'') (get_prop f' ''draw'')"
    by (simp_all add: frame_sim_def same_reads_def)
  have draw: "norm_draw B (get_prop f ''draw'') dx dy dw dh
      = norm_draw B (get_prop f' ''draw'') dx dy dw dh" for dx dy dw dh
    using d by (rule norm_draw_sim)
  show ?thesis
    unfolding norm_frame_def n js_String_or_else_sim [OF u] draw by (rule refl)
qed

lemma map_err_sim:
  assumes "list_all2 R xs ys" and "\<And>x y. R x y \<Longrightarrow> f x = f y"
  shows "map_err f xs = map_err f ys"
  using assms(1)
proof (induction rule: list_all2_induct)
  case Nil
  then show ?case by simp
next
  case (Cons x xs y ys)
  then show ?case using assms(2) [of x y] by simp
qed

lemma layer_frames_sim:
  assumes "list_sim frame_sim (get_prop l ''frames'') (get_prop l' ''frames'')"
  shows "layer_frames B draw t l = layer_frames B draw t l'"
proof (cases "is_array (get_prop l ''frames'') \<or> is_array (get_prop l' ''frames'')")
  case True
  with assms have arr: "is_array (get_prop l ''frames'')" "is_array (get_prop l' ''frames'')"
    and "list_all2 frame_sim (elements (get_prop l ''frames'')) (elements (get_prop l' ''frames''))"
    by (simp_all add: list_sim_def)
  then have "map_err (norm_frame B draw) (elements (get_prop l ''frames''))
      = map_err (norm_frame B draw) (elements (get_prop l' ''frames''))"
    by (intro map_err_sim [where R = frame_sim] norm_frame_sim)
  with arr show ?thesis by (simp add: layer_frames_def)
next
  case False
  then show ?thesis by (simp add: layer_frames_def)
qed

lemma norm_layer_sim:
  assumes "layer_sim l l'"
  shows "norm_layer B sw sh l = norm_layer B sw sh l'"
proof -
  from assms have n: "nullish l = nullish l'"
    and t: "coerce_sim (get_prop l ''type'') (get_prop l' ''type'')"
    and k: "coerce_sim (get_prop l ''key'') (get_prop l' ''key'')"
    and u: "coerce_sim (get_prop l ''url'') (get_prop l' ''url'')"
    and d: "rect_sim (get_prop l ''draw'') (get_prop l' ''draw'')"
    and f: "list_sim frame_sim (get_prop l ''frames'') (get_prop l' ''frames'')"
    by (simp_all add: layer_sim_def same_reads_def)
  have draw: "norm_draw B (get_prop l ''draw'') dx dy sw sh
      = norm_draw B (get_prop l' ''draw'') dx dy sw sh" for dx dy
    using d by (rule norm_draw_sim)
  have frames: "layer_frames B bd ty l = layer_frames B bd ty l'" for bd ty
    using f by (rule layer_frames_sim)
  show ?thesis
    unfolding norm_layer_def n js_String_or_else_sim [OF t] js_String_or_else_sim [OF k]
      coerce_sim_truthy [OF u] js_String_sim [OF u] js_String_sim [OF t] draw frames
    by (rule refl)
qed

lemma norm_gifOptions_sim:
  assumes "gif_sim g g'"
  shows "norm_gifOptions B g = norm_gifOptions B g'"
proof -
  from assms have d: "coerce_sim (get_prop g ''delayMs'') (get_prop g' ''delayMs'')"
    and r: "coerce_sim (get_prop g ''repeat'') (get_prop g' ''repeat'')"
    and q: "coerce_sim (get_prop g ''quality'') (get_prop g' ''quality'')"
    and t: "coerce_sim (get_prop g ''transparent'') (get_prop g' ''transparent'')"
    and tc: "coerce_sim (get_prop g ''transparentColorHex'') (get_prop g' ''transparentColorHex'')"
    and bc: "coerce_sim (get_prop g ''backgroundColorHex'') (get_prop g' ''backgroundColorHex'')"
    by (simp_all add: gif_sim_def same_reads_def)
  show ?thesis
    unfolding norm_gifOptions_def js_Number_or_else_sim [OF d] js_Number_nullish_or_sim [OF r]
      js_Number_or_else_sim [OF q] truthy_or_else_sim [OF t] js_String_or_else_sim [OF tc]
      js_String_or_else_sim [OF bc]
    by (rule refl)
qed

lemma is_array_truthy: "is_array v \<Longrightarrow> truthy v"
  by (cases v) simp_all

lemma not_array_elements: "\<not> is_array v \<Longrightarrow> elements v = []"
  by (cases v) simp_all

lemma list_sim_or_else:
  assumes "list_sim R a b"
  shows "is_array (or_else a (JArr [])) = is_array (or_else b (JArr []))"
    and "list_all2 R (elements (or_else a (JArr []))) (elements (or_else b (JArr [])))"
proof -
  show "is_array (or_else a (JArr [])) = is_array (or_else b (JArr []))"
  proof (cases "is_array a \<or> is_array b")
    case True
    with assms have "is_array a" "is_array b" by (simp_all add: list_sim_def)
    then show ?thesis by (simp add: or_else_def is_array_truthy)
  next
    case False
    with assms have "truthy a = truthy b" by (simp add: list_sim_def)
    with False show ?thesis by (simp add: or_else_def)
  qed
  show "list_all2 R (elements (or_else a (JArr []))) (elements (or_else b (JArr [])))"
  proof (cases "is_array a \<or> is_array b")
    case True
    with assms have "is_array a" "is_array b" "list_all2 R (elements a) (elements b)"
      by (simp_all add: list_sim_def)
    then show ?thesis by (simp add: or_else_def is_array_truthy)
  next
    case False
    with assms have t: "truthy a = truthy b" by (simp add: list_sim_def)
    from False have "elements a = []" "elements b = []"
      by (simp_all add: not_array_elements)
    then show ?thesis by (simp add: or_else_def)
  qed
qed

lemma normalized_payload_sim:
  assumes "payload_sim p p'"
  shows "normalized_payload B p = normalized_payload B p'"
proof -
  from assms have n: "nullish p = nullish p'"
    and w: "get_prop (get_prop p ''size'') ''width'' = get_prop (get_prop p' ''size'') ''width''"
    and h: "get_prop (get_prop p ''size'') ''height''
        = get_prop (get_prop p' ''size'') ''height''"
    and l: "list_sim layer_sim (get_prop p ''layers'') (get_prop p' ''layers'')"
    and f: "get_prop p ''format'' = get_prop p' ''format''"
    and g: "gif_sim (get_prop p ''gifOptions'') (get_prop p' ''gifOptions'')"
    by (simp_all add: payload_sim_def)
  let ?L = "or_else (get_prop p ''layers'') (JArr [])"
  let ?L' = "or_else (get_prop p' ''layers'') (JArr [])"
  have arr: "is_array ?L = is_array ?L'"
    using l by (rule list_sim_or_else(1))
  have els: "list_all2 layer_sim (elements ?L) (elements ?L')"
    using l by (rule list_sim_or_else(2))
  have layers: "map_err (norm_layer B sw sh) (elements ?L)
      = map_err (norm_layer B sw sh) (elements ?L')" for sw sh
    using els by (rule map_err_sim) (rule norm_layer_sim)
  have gt: "truthy (get_prop p ''gifOptions'') = truthy (get_prop p' ''gifOptions'')"
    using g by (simp add: gif_sim_def)
  have go: "norm_gifOptions B (get_prop p ''gifOptions'')
      = norm_gifOptions B (get_prop p' ''gifOptions'')"
    using g by (rule norm_gifOptions_sim)
  show ?thesis
    unfolding normalized_payload_def n w h f arr layers gt go Let_def by simp
qed

subsection \<open>What relates two payloads in this way\<close>

text \<open>
  The relation is reflexive, and objects with the same own properties in another order
  read alike.  So a payload is related to itself with the keys of any of its objects
  reordered, and with any property changed, added or removed that is not among the
  four that are read at the top (\<open>size\<close>, \<open>layers\<close>, \<open>format\<close>, \<open>gifOptions\<close>):
  \<open>guild\<close>, \<open>user\<close> and every unknown field.
\<close>

lemma same_reads_refl: "same_reads ks a a"
  by (simp add: same_reads_def list_all_iff coerce_sim_refl)

lemma frame_sim_refl: "frame_sim f f"
  by (simp add: frame_sim_def rect_sim_def same_reads_refl)

lemma list_sim_refl: "(\<And>x. R x x) \<Longrightarrow> list_sim R a a"
  by (simp add: list_sim_def list_all2_same)

lemma layer_sim_refl: "layer_sim l l"
  by (simp add: layer_sim_def rect_sim_def same_reads_refl list_sim_refl frame_sim_refl)

lemma gif_sim_refl: "gif_sim g g"
  by (simp add: gif_sim_def same_reads_refl)

lemma get_prop_reorder:
  assumes "distinct (map fst kvs)" and "distinct (map fst kvs')" and "set kvs = set kvs'"
  shows "get_prop (JObj kvs) k = get_prop (JObj kvs') k"
proof -
  have "map_of kvs = map_of kvs'"
    using assms by (simp add: map_of_inject_set)
  then show ?thesis by simp
qed

lemma payload_sim_top:
  assumes "list_all (\<lambda>k. map_of kvs k = map_of kvs' k)
             [''size'', ''layers'', ''format'', ''gifOptions'']"
  shows "payload_sim (JObj kvs) (JObj kvs')"
proof -
  from assms have "get_prop (JObj kvs) ''size'' = get_prop (JObj kvs') ''size''"
    and "get_prop (JObj kvs) ''layers'' = get_prop (JObj kvs') ''layers''"
    and "get_prop (JObj kvs) ''format'' = get_prop (JObj kvs') ''format''"
    and "get_prop (JObj kvs) ''gifOptions'' = get_prop (JObj kvs') ''gifOptions''"
    by simp_all
  then show ?thesis
    unfolding payload_sim_def
    by (simp add: list_sim_refl layer_sim_refl gif_sim_refl nullish_def)
qed

text \<open>Two payloads used as concrete inputs: the second has another guild and user,
  fields the normalisation does not know, and the keys of every object in another order;
  the \<open>key\<close> of its second layer is an object with other fields.\<close>

definition payload_one :: jsval where
  "payload_one =
     JObj [(''guild'', JStr ''g1''), (''user'', JStr ''u1''),
           (''size'', JObj [(''width'', JNum (Fin 300)), (''height'', JNum (Fin 200))]),
           (''format'', JStr ''gif''),
           (''layers'', JArr
              [JObj [(''type'', JStr ''background''), (''key'', JStr ''default'')],
               JObj [(''type'', JStr ''pet_gif_frames''),
                     (''key'', JObj [(''id'', JNum (Fin 7)), (''skin'', JStr ''red'')]),
                     (''frames'', JArr
                        [JObj [(''url'', JStr ''data:image/png;base64,QQ=='')],
                         JObj [(''url'', JStr ''data:image/png;base64,Qg==''),
                               (''draw'', JObj [(''x'', JNum (Fin 1)), (''y'', JNum (Fin 2)),
                                                (''w'', JNum (Fin 3)), (''h'', JNum (Fin 4))])]])]]),
           (''gifOptions'', JObj [(''delayMs'', JNum (Fin 100))])]"

definition payload_two :: jsval where
  "payload_two =
     JObj [(''fps'', JNum (Fin 12)),
           (''gifOptions'', JObj [(''note'', JStr ''x''), (''delayMs'', JNum (Fin 100))]),
           (''layers'', JArr
              [JObj [(''key'', JStr ''default''), (''owner'', JStr ''me''),
                     (''type'', JStr ''background'')],
               JObj [(''frames'', JArr
                        [JObj [(''url'', JStr ''data:image/png;base64,QQ==''),
                               (''index'', JNum (Fin 0))],
                         JObj [(''draw'', JObj [(''h'', JNum (Fin 4)), (''w'', JNum (Fin 3)),
                                                (''y'', JNum (Fin 2)), (''x'', JNum (Fin 1)),
                                                (''z'', JNum (Fin 9))]),
                               (''url'', JStr ''data:image/png;base64,Qg=='')]]),
                     (''key'', JObj [(''skin'', JStr ''red''), (''id'', JNum (Fin 7)),
                                     (''age'', JNum (Fin 2))]),
                     (''type'', JStr ''pet_gif_frames'')]]),
           (''format'', JStr ''gif''),
           (''size'', JObj [(''height'', JNum (Fin 200)), (''depth'', JNum (Fin 8)),
                            (''width'', JNum (Fin 300))]),
           (''user'', JStr ''u2''), (''guild'', JStr ''g2'')]"

text \<open>
  C1 (as amended).  Two payloads have the same fingerprint (the same digest, or both
  raise the same error) when they agree in everything the normalisation reads: the
  width and the height of \<open>size\<close> and the value of \<open>format\<close>, which are hashed as they
  are and have to be the same values, with the same keys in the same order inside
  them; and, up to coercing alike, for each layer in order its \<open>type\<close>, \<open>key\<close>, \<open>url\<close>,
  the four coordinates of its \<open>draw\<close> and, for each frame in order, its \<open>url\<close> and the
  four coordinates of its \<open>draw\<close>, and the six options of \<open>gifOptions\<close>.  They may
  differ in \<open>guild\<close>, in \<open>user\<close>, in any other field of the payload, of \<open>size\<close>, of a
  layer, of a frame, of a \<open>draw\<close> or of \<open>gifOptions\<close>, in the order of the keys of these
  objects, and inside an object that is coerced in its keys (an own \<open>toString\<close> apart)
  and their order.
\<close>

theorem stableHashPayload_same_for_similar:
  assumes "payload_sim p p'"
  shows "stableHashPayload B p = stableHashPayload B p'"
  using normalized_payload_sim [OF assms, of B] by (simp add: stableHashPayload_def)

theorem stableHashPayload_same_for_similar_witness:
  "payload_sim payload_one payload_two
   \<and> (\<forall>B. stableHashPayload B payload_one = stableHashPayload B payload_two)
   \<and> (\<forall>B. normalized_payload B payload_two =
         Inr (JObj
           [(''size'', JObj [(''w'', JNum (Fin 300)), (''h'', JNum (Fin 200))]),
            (''layers'', JArr
               [JObj [(''type'', JStr ''background''), (''key'', JStr ''default''),
                      (''url'', JUndefined),
                      (''draw'', JObj [(''x'', JNum (Fin 0)), (''y'', JNum (Fin 0)),
                                       (''w'', JNum (Fin 300)), (''h'', JNum (Fin 200))])],
                JObj [(''type'', JStr ''pet_gif_frames''), (''key'', JStr ''[object Object]''),
                      (''url'', JUndefined),
                      (''draw'', JObj [(''x'', JNum (Fin 0)), (''y'', JNum (Fin 0)),
                                       (''w'', JNum (Fin 300)), (''h'', JNum (Fin 200))]),
                      (''frames'', JArr
                         [JObj [(''url'', JStr ''data:image/png;base64,QQ==''),
                                (''draw'', JObj [(''x'', JNum (Fin 0)), (''y'', JNum (Fin 0)),
                                                 (''w'', JNum (Fin 300)),
                                                 (''h'', JNum (Fin 200))])],
                          JObj [(''url'', JStr ''data:image/png;base64,Qg==''),
                                (''draw'', JObj [(''x'', JNum (Fin 1)), (''y'', JNum (Fin 2)),
                                                 (''w'', JNum (Fin 3)),
                                                 (''h'', JNum (Fin 4))])]])]]),
            (''format'', JStr ''gif''),
            (''gifOptions'', JObj
               [(''delayMs'', JNum (Fin 100)), (''repeat'', JNum (Fin 0)),
                (''quality'', JNum (Fin 0)), (''transparent'', JBool False),
                (''transparentColorHex'', JStr []), (''backgroundColorHex'', JStr [])])]))"
proof -
  have sim: "payload_sim payload_one payload_two"
    by (simp add: payload_one_def payload_two_def payload_sim_def same_reads_def list_sim_def
        layer_sim_def frame_sim_def rect_sim_def gif_sim_def nullish_def)
  have "stableHashPayload B payload_one = stableHashPayload B payload_two" for B
    using stableHashPayload_same_for_similar [OF sim] .
  moreover have "normalized_payload B payload_two =
         Inr (JObj
           [(''size'', JObj [(''w'', JNum (Fin 300)), (''h'', JNum (Fin 200))]),
            (''layers'', JArr
               [JObj [(''type'', JStr ''background''), (''key'', JStr ''default''),
                      (''url'', JUndefined),
                      (''draw'', JObj [(''x'', JNum (Fin 0)), (''y'', JNum (Fin 0)),
                                       (''w'', JNum (Fin 300)), (''h'', JNum (Fin 200))])],
                JObj [(''type'', JStr ''pet_gif_frames''), (''key'', JStr ''[object Object]''),
                      (''url'', JUndefined),
                      (''draw'', JObj [(''x'', JNum (Fin 0)), (''y'', JNum (Fin 0)),
                                       (''w'', JNum (Fin 300)), (''h'', JNum (Fin 200))]),
                      (''frames'', JArr
                         [JObj [(''url'', JStr ''data:image/png;base64,QQ==''),
                                (''draw'', JObj [(''x'', JNum (Fin 0)), (''y'', JNum (Fin 0)),
                                                 (''w'', JNum (Fin 300)),
                                                 (''h'', JNum (Fin 200))])],
                          JObj [(''url'', JStr ''data:image/png;base64,Qg==''),
                                (''draw'', JObj [(''x'', JNum (Fin 1)), (''y'', JNum (Fin 2)),
                                                 (''w'', JNum (Fin 3)),
                                                 (''h'', JNum (Fin 4))])]])]]),
            (''format'', JStr ''gif''),
            (''gifOptions'', JObj
               [(''delayMs'', JNum (Fin 100)), (''repeat'', JNum (Fin 0)),
                (''quality'', JNum (Fin 0)), (''transparent'', JBool False),
                (''transparentColorHex'', JStr []), (''backgroundColorHex'', JStr [])])])" for B
    by (simp add: payload_two_def normalized_payload_def norm_layer_def layer_frames_def
        norm_frame_def norm_draw_def norm_gifOptions_def bind_err_def or_else_def
        nullish_or_def nullish_def Let_def)
  ultimately show ?thesis using sim by blast
qed

subsection \<open>A missing format is \<open>png\<close>\<close>

text \<open>A payload without \<open>format\<close>, used as a concrete input.\<close>

definition payload_no_format :: "(string \<times> jsval) list" where
  "payload_no_format =
     [(''guild'', JStr ''g''), (''user'', JStr ''u''),
      (''size'', JObj [(''width'', JNum (Fin 300)), (''height'', JNum (Fin 300))]),
      (''layers'', JArr [JObj [(''type'', JStr ''floor''), (''key'', JStr ''Wood 01'')]])]"

text \<open>
  C10.  A payload that has no property \<open>format\<close> and the payload with the same
  properties and \<open>format\<close> set to \<open>png\<close> have the same fingerprint: line 370 puts
  \<open>payload.format || 'png'\<close> into the object that is hashed.
\<close>

theorem stableHashPayload_format_default:
  assumes "map_of kvs ''format'' = None"
    and "map_of kvs' = (map_of kvs)(''format'' \<mapsto> JStr ''png'')"
  shows "stableHashPayload B (JObj kvs) = stableHashPayload B (JObj kvs')"
proof -
  have other: "get_prop (JObj kvs') k = get_prop (JObj kvs) k" if "k \<noteq> ''format''" for k
    using that assms(2) by simp
  have f: "get_prop (JObj kvs) ''format'' = JUndefined"
    using assms(1) by simp
  have f': "get_prop (JObj kvs') ''format'' = JStr ''png''"
    using assms(2) by simp
  have fmt: "or_else (get_prop (JObj kvs') ''format'') (JStr ''png'')
      = or_else (get_prop (JObj kvs) ''format'') (JStr ''png'')"
    unfolding f f' by (simp add: or_else_def)
  have s: "get_prop (JObj kvs') ''size'' = get_prop (JObj kvs) ''size''"
    by (rule other) simp
  have l: "get_prop (JObj kvs') ''layers'' = get_prop (JObj kvs) ''layers''"
    by (rule other) simp
  have g: "get_prop (JObj kvs') ''gifOptions'' = get_prop (JObj kvs) ''gifOptions''"
    by (rule other) simp
  have "normalized_payload B (JObj kvs') = normalized_payload B (JObj kvs)"
    unfolding normalized_payload_def fmt s l g by (simp add: nullish_def)
  then show ?thesis by (simp add: stableHashPayload_def)
qed

theorem stableHashPayload_format_default_witness:
  "\<forall>B. stableHashPayload B (JObj payload_no_format)
        = stableHashPayload B (JObj (payload_no_format @ [(''format'', JStr ''png'')]))"
proof
  fix B
  have a: "map_of payload_no_format ''format'' = None"
    by (simp add: payload_no_format_def)
  have b: "map_of (payload_no_format @ [(''format'', JStr ''png'')])
      = (map_of payload_no_format)(''format'' \<mapsto> JStr ''png'')"
    using a by (auto simp: fun_eq_iff map_add_def split: option.splits)
  show "stableHashPayload B (JObj payload_no_format)
        = stableHashPayload B (JObj (payload_no_format @ [(''format'', JStr ''png'')]))"
    using stableHashPayload_format_default [OF a b] .
qed

section \<open>Validation of a submitted job: \<open>POST /jobs\<close> (lines 396-424)\<close>

text \<open>
  The limits are read from the environment when the process starts; unset, they are
  1024, 1024, 50 and 120.
\<close>

record limits =
  MAX_WIDTH :: jsnum
  MAX_HEIGHT :: jsnum
  MAX_LAYERS :: jsnum
  MAX_FRAMES :: jsnum

definition default_limits :: limits where
  "default_limits =
     \<lparr>MAX_WIDTH = Fin 1024, MAX_HEIGHT = Fin 1024, MAX_LAYERS = Fin 50, MAX_FRAMES = Fin 120\<rparr>"

text \<open>What the handler sends: status 400 with an error message, or \<open>{ jobId }\<close>.\<close>

datatype response = Status400 string | JobAccepted string

definition payload_width :: "js_builtins \<Rightarrow> jsval \<Rightarrow> js_error + jsnum" where
  \<comment> \<open>\<open>Number(payload.size?.width || 300)\<close>\<close>
  "payload_width B payload =
     js_Number B (or_else (get_prop (get_prop payload ''size'') ''width'') (JNum (Fin 300)))"

definition payload_height :: "js_builtins \<Rightarrow> jsval \<Rightarrow> js_error + jsnum" where
  "payload_height B payload =
     js_Number B (or_else (get_prop (get_prop payload ''size'') ''height'') (JNum (Fin 300)))"

text \<open>
  The loop of lines 412-417 over the layers, with \<open>frameCountEstimate\<close> as accumulator.
  \<open>String(l?.type)\<close> is evaluated for every layer.
\<close>

fun frameCountEstimate :: "js_builtins \<Rightarrow> jsval list \<Rightarrow> nat \<Rightarrow> js_error + nat" where
  "frameCountEstimate B [] est = Inr est"
| "frameCountEstimate B (l # ls) est =
     bind_err (js_String B (get_prop l ''type'')) (\<lambda>t.
       frameCountEstimate B ls
         (if t = ''pet_gif_frames'' \<and> is_array (get_prop l ''frames'')
          then max est (length (elements (get_prop l ''frames'')))
          else est))"

text \<open>
  The checks of lines 399-420: \<open>Some msg\<close> is the error message of a 400 response,
  \<open>None\<close> is a payload that passes.
\<close>

definition validate_payload :: "js_builtins \<Rightarrow> limits \<Rightarrow> jsval \<Rightarrow> js_error + string option" where
  "validate_payload B L payload =
     (if \<not> truthy payload \<or> \<not> truthy (get_prop payload ''guild'')
         \<or> \<not> truthy (get_prop payload ''user'') \<or> \<not> truthy (get_prop payload ''layers'')
         \<or> \<not> is_array (get_prop payload ''layers'')
      then Inr (Some ''Invalid payload'')
      else
        bind_err (payload_width B payload) (\<lambda>width.
        bind_err (payload_height B payload) (\<lambda>height.
          if num_gt width (MAX_WIDTH L) \<or> num_gt height (MAX_HEIGHT L)
          then Inr (Some ''Size too large'')
          else if num_gt (Fin (of_nat (length (elements (get_prop payload ''layers'')))))
                    (MAX_LAYERS L)
          then Inr (Some ''Too many layers'')
          else
            bind_err (frameCountEstimate B (elements (get_prop payload ''layers'')) 0) (\<lambda>est.
              if num_gt (Fin (of_nat est)) (MAX_FRAMES L)
              then Inr (Some ''Too many frames'')
              else Inr None))))"

text \<open>
  The handler up to its response.  \<open>uuid\<close> is the value of \<open>crypto.randomUUID()\<close>.  After
  the checks the handler evaluates \<open>String(payload.format || '')\<close> (an argument of the
  debug call on line 424, evaluated whether or not debugging is on) before it answers.
  A \<open>TypeError\<close> raised by a coercion leaves the handler without a response being sent.
\<close>

definition post_jobs :: "js_builtins \<Rightarrow> limits \<Rightarrow> string \<Rightarrow> jsval \<Rightarrow> js_error + response" where
  "post_jobs B L uuid body =
     (let payload = or_else body (JObj []) in
      bind_err (validate_payload B L payload) (\<lambda>refused.
        case refused of
          Some msg \<Rightarrow> Inr (Status400 msg)
        | None \<Rightarrow>
            bind_err (js_String B (or_else (get_prop payload ''format'') (JStr []))) (\<lambda>f.
              Inr (JobAccepted uuid))))"

subsection \<open>The rules, in the words of the specification\<close>

text \<open>
  The largest length of a \<open>frames\<close> list over the layers whose type (as a string) is
  \<open>pet_gif_frames\<close> and whose \<open>frames\<close> is an array; 0 when there is none.  A type that
  does not convert to a string is no such type.
\<close>

definition is_frames_layer :: "js_builtins \<Rightarrow> jsval \<Rightarrow> bool" where
  "is_frames_layer B l \<longleftrightarrow>
     js_String B (get_prop l ''type'') = Inr ''pet_gif_frames''
     \<and> is_array (get_prop l ''frames'')"

definition max_frames_length :: "js_builtins \<Rightarrow> jsval list \<Rightarrow> nat" where
  "max_frames_length B ls =
     fold max (map (\<lambda>l. length (elements (get_prop l ''frames''))) (filter (is_frames_layer B) ls)) 0"

definition num_of :: "js_error + jsnum \<Rightarrow> jsnum" where
  \<comment> \<open>the number a coercion gave; \<open>NaN\<close>, which exceeds nothing, when it raised\<close>
  "num_of r = (case r of Inr n \<Rightarrow> n | Inl e \<Rightarrow> NaN)"

text \<open>
  A payload violates a rule, with the word missing read as the handler tests it: the value
  is falsy (absent, \<open>null\<close>, \<open>false\<close>, 0 or the empty string).
\<close>

definition violates_rule :: "js_builtins \<Rightarrow> limits \<Rightarrow> jsval \<Rightarrow> bool" where
  "violates_rule B L payload \<longleftrightarrow>
     \<not> truthy (get_prop payload ''guild'') \<or> \<not> truthy (get_prop payload ''user'')
     \<or> \<not> truthy (get_prop payload ''layers'') \<or> \<not> is_array (get_prop payload ''layers'')
     \<or> num_gt (num_of (payload_width B payload)) (MAX_WIDTH L)
     \<or> num_gt (num_of (payload_height B payload)) (MAX_HEIGHT L)
     \<or> num_gt (Fin (of_nat (length (elements (get_prop payload ''layers''))))) (MAX_LAYERS L)
     \<or> num_gt (Fin (of_nat (max_frames_length B (elements (get_prop payload ''layers'')))))
          (MAX_FRAMES L)"

text \<open>
  The same with the word missing read as the claim words it: the field is absent or \<open>null\<close>.
\<close>

definition violates_rule_as_claimed :: "js_builtins \<Rightarrow> limits \<Rightarrow> jsval \<Rightarrow> bool" where
  "violates_rule_as_claimed B L payload \<longleftrightarrow>
     nullish (get_prop payload ''guild'') \<or> nullish (get_prop payload ''user'')
     \<or> nullish (get_prop payload ''layers'') \<or> \<not> is_array (get_prop payload ''layers'')
     \<or> num_gt (num_of (payload_width B payload)) (MAX_WIDTH L)
     \<or> num_gt (num_of (payload_height B payload)) (MAX_HEIGHT L)
     \<or> num_gt (Fin (of_nat (length (elements (get_prop payload ''layers''))))) (MAX_LAYERS L)
     \<or> num_gt (Fin (of_nat (max_frames_length B (elements (get_prop payload ''layers'')))))
          (MAX_FRAMES L)"

text \<open>
  The values the handler coerces convert without a \<open>TypeError\<close>: width and height to
  numbers, the type of each layer and the format to strings.
\<close>

definition no_throw :: "'e + 'a \<Rightarrow> bool" where
  "no_throw r = (case r of Inl e \<Rightarrow> False | Inr a \<Rightarrow> True)"

definition coerces :: "js_builtins \<Rightarrow> jsval \<Rightarrow> bool" where
  "coerces B payload \<longleftrightarrow>
     no_throw (payload_width B payload) \<and> no_throw (payload_height B payload)
     \<and> list_all (\<lambda>l. no_throw (js_String B (get_prop l ''type'')))
          (elements (get_prop payload ''layers''))
     \<and> no_throw (js_String B (or_else (get_prop payload ''format'') (JStr [])))"

text \<open>Stand-ins for the built-in functions, for closed examples; the examples below do
  not depend on what they return.\<close>

definition builtins_stub :: js_builtins where
  "builtins_stub =
     \<lparr>number_to_string = (\<lambda>n. ''0''), string_to_number = (\<lambda>s. NaN),
      parse_int = (\<lambda>s radix. NaN), JSON_stringify = (\<lambda>v. ''{}''),
      sha1_hex = (\<lambda>s. ''da39a3ee5e6b4b0d3255bfef95601890afd80709'')\<rparr>"

definition payload_empty_guild :: jsval where
  "payload_empty_guild =
     JObj [(''guild'', JStr []), (''user'', JStr ''u''),
           (''size'', JObj [(''width'', JNum (Fin 300)), (''height'', JNum (Fin 300))]),
           (''layers'', JArr [JObj [(''type'', JStr ''background''), (''key'', JStr ''default'')]])]"

definition payload_at_limit :: jsval where
  "payload_at_limit =
     JObj [(''guild'', JStr ''g''), (''user'', JStr ''u''),
           (''size'', JObj [(''width'', JNum (Fin 1024)), (''height'', JNum (Fin 1024))]),
           (''layers'', JArr [JObj [(''type'', JStr ''background''), (''key'', JStr ''default'')]])]"

definition payload_too_wide :: jsval where
  "payload_too_wide =
     JObj [(''guild'', JStr ''g''), (''user'', JStr ''u''),
           (''size'', JObj [(''width'', JNum (Fin 2048)), (''height'', JNum (Fin 300))]),
           (''layers'', JArr [JObj [(''type'', JStr ''background''), (''key'', JStr ''default'')]])]"

lemma frameCountEstimate_max:
  assumes "list_all (\<lambda>l. no_throw (js_String B (get_prop l ''type''))) ls"
  shows "frameCountEstimate B ls est
       = Inr (fold max (map (\<lambda>l. length (elements (get_prop l ''frames'')))
                          (filter (is_frames_layer B) ls)) est)"
  using assms
proof (induction ls arbitrary: est)
  case Nil
  then show ?case by simp
next
  case (Cons l ls)
  from Cons.prems obtain t where t: "js_String B (get_prop l ''type'') = Inr t"
    by (cases "js_String B (get_prop l ''type'')") (simp_all add: no_throw_def)
  from Cons.prems have rest: "list_all (\<lambda>l. no_throw (js_String B (get_prop l ''type''))) ls"
    by simp
  show ?case
    using t Cons.IH [OF rest] by (simp add: bind_err_def is_frames_layer_def max.commute)
qed

subsection \<open>When a job is refused\<close>

text \<open>
  C4 (as amended).  For a request whose coerced values (size.width, size.height, the
  type of each layer, format) convert without raising, \<open>POST /jobs\<close> answers 400 if and
  only if the payload violates a rule: \<open>guild\<close>, \<open>user\<close> or \<open>layers\<close> is falsy (absent,
  \<open>null\<close>, \<open>false\<close>, 0 or the empty string), \<open>layers\<close> is not an array, the width
  exceeds \<open>MAX_WIDTH\<close>, the height exceeds \<open>MAX_HEIGHT\<close>, there are more than
  \<open>MAX_LAYERS\<close> layers, or the longest \<open>frames\<close> list of a \<open>pet_gif_frames\<close> layer has
  more than \<open>MAX_FRAMES\<close> entries; every other such payload is accepted and answered
  with its job id.  (Width and height are \<open>Number(size.width || 300)\<close> and
  \<open>Number(size.height || 300)\<close>; a width equal to \<open>MAX_WIDTH\<close> is accepted.)
\<close>

theorem post_jobs_validation:
  assumes "coerces B (or_else body (JObj []))"
  shows "(violates_rule B L (or_else body (JObj [])) \<longrightarrow>
            (\<exists>msg. post_jobs B L uuid body = Inr (Status400 msg)))
       \<and> (\<not> violates_rule B L (or_else body (JObj [])) \<longrightarrow>
            post_jobs B L uuid body = Inr (JobAccepted uuid))"
proof -
  define payload where "payload = or_else body (JObj [])"
  have tp: "truthy payload" by (simp add: payload_def or_else_def)
  from assms obtain w where w: "payload_width B payload = Inr w"
    unfolding payload_def [symmetric] coerces_def no_throw_def
    by (cases "payload_width B payload") simp_all
  from assms obtain h where h: "payload_height B payload = Inr h"
    unfolding payload_def [symmetric] coerces_def no_throw_def
    by (cases "payload_height B payload") simp_all
  from assms obtain f where
    f: "js_String B (or_else (get_prop payload ''format'') (JStr [])) = Inr f"
    unfolding payload_def [symmetric] coerces_def no_throw_def
    by (cases "js_String B (or_else (get_prop payload ''format'') (JStr []))") simp_all
  from assms have "list_all (\<lambda>l. no_throw (js_String B (get_prop l ''type'')))
      (elements (get_prop payload ''layers''))"
    unfolding payload_def [symmetric] coerces_def by simp
  then have fc: "frameCountEstimate B (elements (get_prop payload ''layers'')) 0
      = Inr (max_frames_length B (elements (get_prop payload ''layers'')))"
    unfolding max_frames_length_def by (rule frameCountEstimate_max)
  have "(violates_rule B L payload \<longrightarrow>
            (\<exists>msg. post_jobs B L uuid body = Inr (Status400 msg)))
       \<and> (\<not> violates_rule B L payload \<longrightarrow>
            post_jobs B L uuid body = Inr (JobAccepted uuid))"
    unfolding post_jobs_def validate_payload_def payload_def [symmetric] violates_rule_def
      Let_def
    using tp by (simp add: w h f fc bind_err_def num_of_def)
  then show ?thesis unfolding payload_def .
qed

theorem post_jobs_validation_witness:
  "coerces builtins_stub payload_at_limit
   \<and> post_jobs builtins_stub default_limits ''job-1'' payload_at_limit
       = Inr (JobAccepted ''job-1'')
   \<and> coerces builtins_stub payload_too_wide
   \<and> violates_rule builtins_stub default_limits payload_too_wide
   \<and> post_jobs builtins_stub default_limits ''job-2'' payload_too_wide
       = Inr (Status400 ''Size too large'')"
proof -
  have c1: "coerces builtins_stub (or_else payload_at_limit (JObj []))"
    by (simp add: coerces_def payload_at_limit_def or_else_def payload_width_def
        payload_height_def no_throw_def)
  have c2: "coerces builtins_stub (or_else payload_too_wide (JObj []))"
    by (simp add: coerces_def payload_too_wide_def or_else_def payload_width_def
        payload_height_def no_throw_def)
  have o1: "or_else payload_at_limit (JObj []) = payload_at_limit"
    by (simp add: payload_at_limit_def or_else_def)
  have o2: "or_else payload_too_wide (JObj []) = payload_too_wide"
    by (simp add: payload_too_wide_def or_else_def)
  have v1: "\<not> violates_rule builtins_stub default_limits payload_at_limit"
    by (simp add: violates_rule_def payload_at_limit_def default_limits_def payload_width_def
        payload_height_def or_else_def num_of_def max_frames_length_def is_frames_layer_def)
  have v2: "violates_rule builtins_stub default_limits payload_too_wide"
    by (simp add: violates_rule_def payload_too_wide_def default_limits_def payload_width_def
        payload_height_def or_else_def num_of_def)
  from post_jobs_validation [OF c1, of default_limits "''job-1''"] v1
  have a: "post_jobs builtins_stub default_limits ''job-1'' payload_at_limit
      = Inr (JobAccepted ''job-1'')"
    unfolding o1 by blast
  from post_jobs_validation [OF c2, of default_limits "''job-2''"] v2
  obtain msg where "post_jobs builtins_stub default_limits ''job-2'' payload_too_wide
      = Inr (Status400 msg)"
    unfolding o2 by blast
  moreover have "post_jobs builtins_stub default_limits ''job-2'' payload_too_wide
      = Inr (Status400 ''Size too large'')"
    by (simp add: post_jobs_def validate_payload_def payload_too_wide_def default_limits_def
        payload_width_def payload_height_def or_else_def bind_err_def Let_def)
  ultimately show ?thesis using a c1 c2 v2 unfolding o1 o2 by simp
qed

text \<open>
  The claim as stated fails for a payload whose \<open>guild\<close> is present and is the empty
  string: none of the rules as the claim words them is violated (nothing is missing,
  \<open>layers\<close> is an array of one layer, the size is 300 by 300), and the answer is 400.
\<close>

theorem post_jobs_empty_guild_counterexample:
  "get_prop payload_empty_guild ''guild'' = JStr []
   \<and> \<not> violates_rule_as_claimed builtins_stub default_limits payload_empty_guild
   \<and> post_jobs builtins_stub default_limits ''job-1'' payload_empty_guild
       = Inr (Status400 ''Invalid payload'')"
  by (simp add: violates_rule_as_claimed_def payload_empty_guild_def default_limits_def
      payload_width_def payload_height_def or_else_def num_of_def max_frames_length_def
      is_frames_layer_def nullish_def post_jobs_def validate_payload_def bind_err_def Let_def)

subsection \<open>Key order inside a value that is hashed as it is\<close>

text \<open>
  A closed example needs the text that \<open>JSON.stringify\<close> gives and its digest.
  \<open>json_text\<close> writes a value as \<open>JSON.stringify\<close> does, for the values of the examples:
  the properties of an object in their order, a property whose value is \<open>undefined\<close>
  left out, no white space; strings whose characters need no escape other than the
  quote and the backslash; numbers that are naturals, in decimal.
\<close>

definition digit_of :: "nat \<Rightarrow> char" where
  "digit_of d = ''0123456789'' ! d"

function decimal :: "nat \<Rightarrow> string" where
  "decimal n = (if n < 10 then [digit_of n] else decimal (n div 10) @ [digit_of (n mod 10)])"
  by pat_completeness auto

termination
  by (relation "measure id") auto

declare decimal.simps [simp del]

definition number_text :: "jsnum \<Rightarrow> string" where
  "number_text n =
     (case n of
        Fin q \<Rightarrow> if q \<in> \<int> \<and> 0 \<le> q then decimal (nat \<lfloor>q\<rfloor>) else []
      | PosInf \<Rightarrow> ''Infinity''
      | NegInf \<Rightarrow> ''-Infinity''
      | NaN \<Rightarrow> ''NaN'')"

definition json_escape :: "char \<Rightarrow> string" where
  "json_escape c =
     (if c = CHR 0x22 then [CHR 0x5C, CHR 0x22]
      else if c = CHR 0x5C then [CHR 0x5C, CHR 0x5C]
      else [c])"

definition json_quote :: "string \<Rightarrow> string" where
  "json_quote s = [CHR 0x22] @ concat (map json_escape s) @ [CHR 0x22]"

fun json_text :: "jsval \<Rightarrow> string"
  and json_items :: "jsval list \<Rightarrow> string list"
  and json_props :: "(string \<times> jsval) list \<Rightarrow> string list" where
  "json_text JUndefined = []"
| "json_text JFunc = []"
| "json_text JNull = ''null''"
| "json_text (JBool b) = (if b then ''true'' else ''false'')"
| "json_text (JNum n) = (case n of Fin q \<Rightarrow> number_text n | _ \<Rightarrow> ''null'')"
| "json_text (JStr s) = json_quote s"
| "json_text (JArr xs) = ''['' @ join_comma (json_items xs) @ '']''"
| "json_text (JObj kvs) = ''{'' @ join_comma (json_props kvs) @ ''}''"
| "json_items [] = []"
| "json_items (x # xs) =
     (if x = JUndefined \<or> x = JFunc then ''null'' else json_text x) # json_items xs"
| "json_props [] = []"
| "json_props ((k, v) # kvs) =
     (if v = JUndefined \<or> v = JFunc then json_props kvs
      else (json_quote k @ '':'' @ json_text v) # json_props kvs)"

text \<open>
  Two payloads that differ only in the order of the two keys of the object that is the
  value of \<open>format\<close>, the two texts that are hashed for them, and the SHA-1 digests of
  these two texts.
\<close>

definition payload_format_ab :: jsval where
  "payload_format_ab =
     JObj [(''guild'', JStr ''g''), (''user'', JStr ''u''),
           (''size'', JObj [(''width'', JNum (Fin 300)), (''height'', JNum (Fin 300))]),
           (''layers'', JArr [JObj [(''type'', JStr ''floor''), (''key'', JStr ''Wood 01'')]]),
           (''format'', JObj [(''a'', JNum (Fin 1)), (''b'', JNum (Fin 2))])]"

definition payload_format_ba :: jsval where
  "payload_format_ba =
     JObj [(''guild'', JStr ''g''), (''user'', JStr ''u''),
           (''size'', JObj [(''width'', JNum (Fin 300)), (''height'', JNum (Fin 300))]),
           (''layers'', JArr [JObj [(''type'', JStr ''floor''), (''key'', JStr ''Wood 01'')]]),
           (''format'', JObj [(''b'', JNum (Fin 2)), (''a'', JNum (Fin 1))])]"

definition text_format_ab :: string where
  \<open>text_format_ab =
     ''{"size":{"w":300,"h":300},"layers":[{"type":"floor","key":"Wood 01","draw":{"x":0,"y":0,"w":300,"h":300}}],"format":{"a":1,"b":2}}''\<close>

definition text_format_ba :: string where
  \<open>text_format_ba =
     ''{"size":{"w":300,"h":300},"layers":[{"type":"floor","key":"Wood 01","draw":{"x":0,"y":0,"w":300,"h":300}}],"format":{"b":2,"a":1}}''\<close>

definition sha1_of_texts :: "string \<Rightarrow> string" where
  "sha1_of_texts s =
     (if s = text_format_ab then ''c1e2551bcd9d8d275567efb52cc6761f3f63e02c''
      else if s = text_format_ba then ''628834870812b7869ac2a6c6002ab3b40923208e''
      else [])"

definition builtins_text :: js_builtins where
  "builtins_text =
     \<lparr>number_to_string = number_text, string_to_number = (\<lambda>s. NaN),
      parse_int = (\<lambda>s r. NaN), JSON_stringify = json_text, sha1_hex = sha1_of_texts\<rparr>"

lemma decimal_examples:
  "decimal 0 = ''0''" "decimal (Suc 0) = ''1''" "decimal 2 = ''2''" "decimal 300 = ''300''"
  by (simp_all add: decimal.simps [of 0] decimal.simps [of "Suc 0"] decimal.simps [of 2]
      decimal.simps [of 3] decimal.simps [of 30] decimal.simps [of 300] digit_of_def)

lemma number_text_examples:
  "number_text (Fin 0) = ''0''" "number_text (Fin 1) = ''1''" "number_text (Fin 2) = ''2''"
  "number_text (Fin 300) = ''300''"
  by (simp_all add: number_text_def decimal_examples)

lemma normalized_format_ab:
  "normalized_payload B payload_format_ab =
     Inr (JObj
       [(''size'', JObj [(''w'', JNum (Fin 300)), (''h'', JNum (Fin 300))]),
        (''layers'', JArr
           [JObj [(''type'', JStr ''floor''), (''key'', JStr ''Wood 01''), (''url'', JUndefined),
                  (''draw'', JObj [(''x'', JNum (Fin 0)), (''y'', JNum (Fin 0)),
                                   (''w'', JNum (Fin 300)), (''h'', JNum (Fin 300))])]]),
        (''format'', JObj [(''a'', JNum (Fin 1)), (''b'', JNum (Fin 2))]),
        (''gifOptions'', JUndefined)])"
  by (simp add: payload_format_ab_def normalized_payload_def norm_layer_def layer_frames_def
      norm_draw_def bind_err_def or_else_def nullish_def Let_def)

lemma normalized_format_ba:
  "normalized_payload B payload_format_ba =
     Inr (JObj
       [(''size'', JObj [(''w'', JNum (Fin 300)), (''h'', JNum (Fin 300))]),
        (''layers'', JArr
           [JObj [(''type'', JStr ''floor''), (''key'', JStr ''Wood 01''), (''url'', JUndefined),
                  (''draw'', JObj [(''x'', JNum (Fin 0)), (''y'', JNum (Fin 0)),
                                   (''w'', JNum (Fin 300)), (''h'', JNum (Fin 300))])]]),
        (''format'', JObj [(''b'', JNum (Fin 2)), (''a'', JNum (Fin 1))]),
        (''gifOptions'', JUndefined)])"
  by (simp add: payload_format_ba_def normalized_payload_def norm_layer_def layer_frames_def
      norm_draw_def bind_err_def or_else_def nullish_def Let_def)

text \<open>Whatever the built-in functions are, the two objects that are serialised differ.\<close>

lemma normalized_format_differ:
  "normalized_payload B payload_format_ab \<noteq> normalized_payload B payload_format_ba"
  unfolding normalized_format_ab normalized_format_ba by simp

lemma hashed_text_ab:
  "map_sum id json_text (normalized_payload builtins_text payload_format_ab) = Inr text_format_ab"
  unfolding normalized_format_ab
  by (simp add: text_format_ab_def json_quote_def json_escape_def number_text_examples)

lemma hashed_text_ba:
  "map_sum id json_text (normalized_payload builtins_text payload_format_ba) = Inr text_format_ba"
  unfolding normalized_format_ba
  by (simp add: text_format_ba_def json_quote_def json_escape_def number_text_examples)

lemma texts_differ: "text_format_ab \<noteq> text_format_ba"
  by (simp add: text_format_ab_def text_format_ba_def)

lemma accepted_format_ab:
  "post_jobs builtins_text default_limits ''job-1'' payload_format_ab = Inr (JobAccepted ''job-1'')"
  by (simp add: post_jobs_def validate_payload_def payload_width_def payload_height_def
      payload_format_ab_def default_limits_def bind_err_def or_else_def nullish_def Let_def)

lemma accepted_format_ba:
  "post_jobs builtins_text default_limits ''job-2'' payload_format_ba = Inr (JobAccepted ''job-2'')"
  by (simp add: post_jobs_def validate_payload_def payload_width_def payload_height_def
      payload_format_ba_def default_limits_def bind_err_def or_else_def nullish_def Let_def)

text \<open>
  The claim as stated fails on these two payloads: they differ only in the order of
  the keys of one JSON object, both are accepted, and their fingerprints differ.
\<close>

theorem stableHashPayload_key_order_counterexample:
  "post_jobs builtins_text default_limits ''job-1'' payload_format_ab = Inr (JobAccepted ''job-1'')
   \<and> post_jobs builtins_text default_limits ''job-2'' payload_format_ba = Inr (JobAccepted ''job-2'')
   \<and> map_sum id (JSON_stringify builtins_text) (normalized_payload builtins_text payload_format_ab)
       = Inr text_format_ab
   \<and> map_sum id (JSON_stringify builtins_text) (normalized_payload builtins_text payload_format_ba)
       = Inr text_format_ba
   \<and> stableHashPayload builtins_text payload_format_ab
       = Inr ''c1e2551bcd9d8d275567efb52cc6761f3f63e02c''
   \<and> stableHashPayload builtins_text payload_format_ba
       = Inr ''628834870812b7869ac2a6c6002ab3b40923208e''
   \<and> stableHashPayload builtins_text payload_format_ab
       \<noteq> stableHashPayload builtins_text payload_format_ba"
proof -
  have s: "JSON_stringify builtins_text = json_text" "sha1_hex builtins_text = sha1_of_texts"
    by (simp_all add: builtins_text_def)
  have a: "stableHashPayload builtins_text payload_format_ab
      = Inr ''c1e2551bcd9d8d275567efb52cc6761f3f63e02c''"
    using hashed_text_ab
    by (cases "normalized_payload builtins_text payload_format_ab")
      (simp_all add: stableHashPayload_def bind_err_def s sha1_of_texts_def)
  have b: "stableHashPayload builtins_text payload_format_ba
      = Inr ''628834870812b7869ac2a6c6002ab3b40923208e''"
    using hashed_text_ba texts_differ
    by (cases "normalized_payload builtins_text payload_format_ba")
      (auto simp: stableHashPayload_def bind_err_def s sha1_of_texts_def)
  show ?thesis
    unfolding s using accepted_format_ab accepted_format_ba hashed_text_ab hashed_text_ba a b
    by simp
qed

section \<open>The compositor: \<open>composePng\<close> and \<open>composeGif\<close> (lines 223-329)\<close>

text \<open>
  Settings read from the environment: the default frame delay (180 when unset) and the
  two concurrency limits (10 when unset).
\<close>

record compose_config =
  DEFAULT_GIF_DELAY_MS :: jsnum
  FRAME_FETCH_CONCURRENCY :: int
  STATIC_FETCH_CONCURRENCY :: int

definition default_config :: compose_config where
  "default_config =
     \<lparr>DEFAULT_GIF_DELAY_MS = Fin 180, FRAME_FETCH_CONCURRENCY = 10,
      STATIC_FETCH_CONCURRENCY = 10\<rparr>"

text \<open>
  The canvas is the list of the drawing calls made on it since it was created or last
  cleared.  \<open>FillRect style w h\<close> is the assignment of \<open>style\<close> to \<open>fillStyle\<close> (ignored
  by the canvas when it is no colour) followed by \<open>fillRect(0, 0, w, h)\<close>;
  \<open>DrawImage img x y w h\<close> is \<open>drawImage\<close>.  An encoded image is the canvas that was
  encoded as PNG, or the settings of the GIF encoder and the canvases that were added
  to it as frames, in order.
\<close>

datatype 'img canvas_op =
    FillRect jsval jsval jsval
  | DrawImage 'img jsval jsval jsval jsval

record encoder_settings =
  enc_delay :: jsnum
  enc_repeat :: jsnum
  enc_quality :: jsnum
  enc_transparent :: "jsnum option"

datatype 'img encoded =
    Png "'img canvas_op list"
  | Gif encoder_settings "'img canvas_op list list"

record 'img compose_result =
  format :: string
  buffer :: "'img encoded"

text \<open>A decoded picture with its rectangle, \<open>{ img, draw }\<close>; and a decoded layer,
  \<open>{ kind: 'static', img, draw }\<close> or \<open>{ kind: 'frames', frames }\<close>.\<close>

record 'img drawable =
  img :: 'img
  draw :: jsval

datatype 'img decoded_layer = Static 'img jsval | Frames "'img drawable list"

definition bind_promise ::
  "'a promise_result \<Rightarrow> ('a \<Rightarrow> 'b promise_result) \<Rightarrow> 'b promise_result" where
  \<comment> \<open>\<open>await\<close>: go on with the value, or end as the awaited promise ended\<close>
  "bind_promise m f =
     (case m of Fulfilled a \<Rightarrow> f a | Rejected e \<Rightarrow> Rejected e
      | Pending_forever \<Rightarrow> Pending_forever)"

definition full_canvas :: "jsval \<Rightarrow> jsval \<Rightarrow> jsval" where
  \<comment> \<open>\<open>{ x: 0, y: 0, w: width, h: height }\<close>\<close>
  "full_canvas width height =
     JObj [(''x'', JNum (Fin 0)), (''y'', JNum (Fin 0)), (''w'', width), (''h'', height)]"

definition draw_image :: "jsval \<Rightarrow> jsval \<Rightarrow> 'img \<Rightarrow> jsval \<Rightarrow> 'img canvas_op" where
  \<comment> \<open>\<open>ctx.drawImage(img, d.x || 0, d.y || 0, d.w || width, d.h || height)\<close>\<close>
  "draw_image width height im d =
     DrawImage im (or_else (get_prop d ''x'') (JNum (Fin 0)))
                  (or_else (get_prop d ''y'') (JNum (Fin 0)))
                  (or_else (get_prop d ''w'') width)
                  (or_else (get_prop d ''h'') height)"

text \<open>
  Loading a picture is a parameter: \<open>load url\<close> is the image that
  \<open>fetchImageWithFallback(url)\<close> followed by \<open>loadImageCached(url, buf)\<close> gives, or
  \<open>None\<close> when either raises.  Both mappers catch that failure and return \<open>null\<close>, so
  their promises are always fulfilled: with the object (\<open>Some\<close>) or with \<open>null\<close>.
\<close>

definition png_mapper ::
  "(jsval \<Rightarrow> 'img option) \<Rightarrow> jsval \<Rightarrow> jsval \<Rightarrow> jsval \<Rightarrow> nat \<Rightarrow> 'img drawable option option" where
  "png_mapper load width height layer i =
     Some (if \<not> truthy layer \<or> \<not> truthy (get_prop layer ''url'') then None
           else case load (get_prop layer ''url'') of
                  None \<Rightarrow> None
                | Some im \<Rightarrow>
                    Some \<lparr>img = im,
                          draw = or_else (get_prop layer ''draw'') (full_canvas width height)\<rparr>)"

definition frame_mapper ::
  "(jsval \<Rightarrow> 'img option) \<Rightarrow> jsval \<Rightarrow> jsval \<Rightarrow> jsval \<Rightarrow> jsval \<Rightarrow> nat
     \<Rightarrow> 'img drawable option option" where
  "frame_mapper load width height layer fr i =
     Some (if \<not> truthy (get_prop fr ''url'') then None
           else case load (get_prop fr ''url'') of
                  None \<Rightarrow> None
                | Some im \<Rightarrow>
                    Some \<lparr>img = im,
                          draw = or_else (get_prop fr ''draw'')
                                   (or_else (get_prop layer ''draw'')
                                      (full_canvas width height))\<rparr>)"

text \<open>\<open>frames.filter(Boolean)\<close> on an array of objects, \<open>null\<close>s and empty slots.\<close>

fun filter_Boolean :: "'a option slot list \<Rightarrow> 'a list" where
  "filter_Boolean [] = []"
| "filter_Boolean (Filled (Some x) # ss) = x # filter_Boolean ss"
| "filter_Boolean (s # ss) = filter_Boolean ss"

text \<open>The loop of \<open>composePng\<close> over \<open>decoded\<close> (lines 239-243), on the canvas.\<close>

fun draw_decoded ::
  "jsval \<Rightarrow> jsval \<Rightarrow> 'img drawable option slot list \<Rightarrow> 'img canvas_op list
     \<Rightarrow> 'img canvas_op list" where
  "draw_decoded width height [] canvas = canvas"
| "draw_decoded width height (Filled (Some it) # its) canvas =
     draw_decoded width height its (canvas @ [draw_image width height (img it) (draw it)])"
| "draw_decoded width height (s # its) canvas = draw_decoded width height its canvas"

definition composePng ::
  "compose_config \<Rightarrow> (jsval \<Rightarrow> 'img option) \<Rightarrow> (nat list \<Rightarrow> nat) \<Rightarrow> jsval \<Rightarrow> jsval
     \<Rightarrow> jsval list \<Rightarrow> jsval \<Rightarrow> 'img encoded promise_result" where
  "composePng cfg load pick width height layers backgroundHex =
     (let canvas = (if truthy backgroundHex then [FillRect backgroundHex width height] else [])
      in bind_promise
           (mapWithConcurrency pick layers (STATIC_FETCH_CONCURRENCY cfg)
              (png_mapper load width height))
           (\<lambda>decoded. Fulfilled (Png (draw_decoded width height decoded canvas))))"

text \<open>The options of \<open>composeGif\<close> as lines 248-254 coerce them.\<close>

record gif_options =
  delayMs :: jsnum
  repeat_count :: jsnum
  quality :: jsnum
  wantTransparent :: bool
  transparentInt :: jsnum
  backgroundHex :: string

fun remove_first_hash :: "string \<Rightarrow> string" where
  \<comment> \<open>\<open>s.replace('#', '')\<close>\<close>
  "remove_first_hash [] = []"
| "remove_first_hash (c # cs) = (if c = CHR ''#'' then cs else c # remove_first_hash cs)"

definition read_gif_options ::
  "js_builtins \<Rightarrow> compose_config \<Rightarrow> jsval \<Rightarrow> js_error + gif_options" where
  "read_gif_options B cfg options =
     bind_err (js_Number B (or_else (if truthy options then get_prop options ''delayMs''
                                     else options)
                              (JNum (DEFAULT_GIF_DELAY_MS cfg)))) (\<lambda>d.
     bind_err (js_Number B (nullish_or (get_prop options ''repeat'') (JNum (Fin 0)))) (\<lambda>r.
     bind_err (js_Number B (or_else (get_prop options ''quality'') (JNum (Fin 10)))) (\<lambda>q.
     bind_err (js_String B (or_else (get_prop options ''transparentColorHex'')
                              (JStr ''#ff00ff''))) (\<lambda>th.
     bind_err (js_String B (or_else (get_prop options ''backgroundColorHex'') (JStr []))) (\<lambda>bg.
       Inr \<lparr>delayMs = d, repeat_count = r, quality = q,
            wantTransparent = truthy (get_prop options ''transparent''),
            transparentInt = parse_int B (remove_first_hash th) 16,
            backgroundHex = bg\<rparr>)))))"

fun is_finite :: "jsnum \<Rightarrow> bool" where
  "is_finite (Fin q) = True"
| "is_finite n = False"

definition encoder_of :: "gif_options \<Rightarrow> encoder_settings" where
  \<comment> \<open>lines 292-298\<close>
  "encoder_of opts =
     \<lparr>enc_delay = delayMs opts, enc_repeat = repeat_count opts, enc_quality = quality opts,
      enc_transparent = (if wantTransparent opts \<and> is_finite (transparentInt opts)
                         then Some (transparentInt opts) else None)\<rparr>"

text \<open>
  The test of line 262, \<open>layer.type === 'pet_gif_frames' && Array.isArray(layer.frames)
  && layer.frames.length > 0\<close>.  The comparison is strict: the type must be the string
  itself.
\<close>

definition is_animated :: "jsval \<Rightarrow> bool" where
  "is_animated layer \<longleftrightarrow>
     get_prop layer ''type'' = JStr ''pet_gif_frames'' \<and> is_array (get_prop layer ''frames'')
     \<and> length (elements (get_prop layer ''frames'')) > 0"

text \<open>
  The loop over the layers (lines 258-284), with \<open>decodedLayers\<close> and \<open>maxFrames\<close> as
  accumulators.
\<close>

fun decode_layers ::
  "compose_config \<Rightarrow> (jsval \<Rightarrow> 'img option) \<Rightarrow> (nat list \<Rightarrow> nat) \<Rightarrow> jsval \<Rightarrow> jsval
     \<Rightarrow> jsval list \<Rightarrow> 'img decoded_layer list \<Rightarrow> nat
     \<Rightarrow> ('img decoded_layer list \<times> nat) promise_result" where
  "decode_layers cfg load pick width height [] decodedLayers maxFrames =
     Fulfilled (decodedLayers, maxFrames)"
| "decode_layers cfg load pick width height (layer # layers) decodedLayers maxFrames =
     (if \<not> truthy layer
      then decode_layers cfg load pick width height layers decodedLayers maxFrames
      else if is_animated layer
      then
        (case mapWithConcurrency pick (elements (get_prop layer ''frames''))
                (FRAME_FETCH_CONCURRENCY cfg) (frame_mapper load width height layer) of
           Fulfilled frames \<Rightarrow>
             (let perFrame = filter_Boolean frames in
              if length perFrame > 0
              then decode_layers cfg load pick width height layers
                     (decodedLayers @ [Frames perFrame]) (max maxFrames (length perFrame))
              else decode_layers cfg load pick width height layers decodedLayers maxFrames)
         | Rejected e \<Rightarrow> Rejected e
         | Pending_forever \<Rightarrow> Pending_forever)
      else if truthy (get_prop layer ''url'')
      then
        (case load (get_prop layer ''url'') of
           Some im \<Rightarrow>
             decode_layers cfg load pick width height layers
               (decodedLayers
                  @ [Static im (or_else (get_prop layer ''draw'') (full_canvas width height))])
               maxFrames
         | None \<Rightarrow> decode_layers cfg load pick width height layers decodedLayers maxFrames)
      else decode_layers cfg load pick width height layers decodedLayers maxFrames)"

text \<open>
  One layer drawn for frame \<open>i\<close> (lines 310-318).  For a list of frames the index is
  \<open>i % l.frames.length\<close>; on an empty list that index is \<open>NaN\<close>, the read gives
  \<open>undefined\<close>, and nothing is drawn.
\<close>

definition layer_ops :: "jsval \<Rightarrow> jsval \<Rightarrow> nat \<Rightarrow> 'img decoded_layer \<Rightarrow> 'img canvas_op list" where
  "layer_ops width height i l =
     (case l of
        Static im d \<Rightarrow> [draw_image width height im d]
      | Frames fs \<Rightarrow>
          if fs = [] then []
          else let f = fs ! (i mod length fs)
               in [draw_image width height (img f)
                     (or_else (draw f) (full_canvas width height))])"

fun draw_layers ::
  "jsval \<Rightarrow> jsval \<Rightarrow> nat \<Rightarrow> 'img decoded_layer list \<Rightarrow> 'img canvas_op list
     \<Rightarrow> 'img canvas_op list" where
  "draw_layers width height i [] canvas = canvas"
| "draw_layers width height i (l # ls) canvas =
     draw_layers width height i ls (canvas @ layer_ops width height i l)"

text \<open>
  The loop over the frames (lines 304-323): fill when there is a background colour,
  draw the layers, add the canvas to the encoder as a frame, clear the canvas.
\<close>

function frame_loop ::
  "string \<Rightarrow> jsval \<Rightarrow> jsval \<Rightarrow> 'img decoded_layer list \<Rightarrow> nat \<Rightarrow> nat \<Rightarrow> 'img canvas_op list
     \<Rightarrow> 'img canvas_op list list \<Rightarrow> 'img canvas_op list list" where
  "frame_loop bg width height decodedLayers i maxFrames canvas frames =
     (if i < maxFrames
      then
        let filled = (if bg \<noteq> [] then canvas @ [FillRect (JStr bg) width height] else canvas);
            drawn = draw_layers width height i decodedLayers filled
        in frame_loop bg width height decodedLayers (Suc i) maxFrames [] (frames @ [drawn])
      else frames)"
  by pat_completeness auto
termination
  by (relation "measure (\<lambda>(bg, width, height, decodedLayers, i, maxFrames, canvas, frames).
        maxFrames - i)") auto

declare frame_loop.simps [simp del]

definition composeGif ::
  "js_builtins \<Rightarrow> compose_config \<Rightarrow> (jsval \<Rightarrow> 'img option) \<Rightarrow> (nat list \<Rightarrow> nat) \<Rightarrow> jsval
     \<Rightarrow> jsval \<Rightarrow> jsval list \<Rightarrow> jsval \<Rightarrow> 'img compose_result promise_result" where
  "composeGif B cfg load pick width height layers options =
     (case read_gif_options B cfg options of
        Inl e \<Rightarrow> Rejected e
      | Inr opts \<Rightarrow>
          bind_promise (decode_layers cfg load pick width height layers [] 0)
            (\<lambda>(decodedLayers, maxFrames).
               if maxFrames = 0
               then bind_promise
                      (composePng cfg load pick width height layers (JStr (backgroundHex opts)))
                      (\<lambda>png. Fulfilled \<lparr>format = ''png'', buffer = png\<rparr>)
               else Fulfilled
                      \<lparr>format = ''gif'',
                       buffer = Gif (encoder_of opts)
                                  (frame_loop (backgroundHex opts) width height decodedLayers
                                     0 maxFrames [] [])\<rparr>))"

subsection \<open>The layers that are drawn, in the words of the specification\<close>

text \<open>
  The frames of an animated layer that survive: those with a truthy \<open>url\<close> whose picture
  loads, in the order of the input, each with its rectangle (its own, else that of the
  layer, else the full canvas).
\<close>

definition surviving_frame ::
  "(jsval \<Rightarrow> 'img option) \<Rightarrow> jsval \<Rightarrow> jsval \<Rightarrow> jsval \<Rightarrow> jsval \<Rightarrow> 'img drawable option" where
  "surviving_frame load width height layer fr =
     (if truthy (get_prop fr ''url'')
      then map_option
             (\<lambda>im. \<lparr>img = im,
                     draw = or_else (get_prop fr ''draw'')
                              (or_else (get_prop layer ''draw'') (full_canvas width height))\<rparr>)
             (load (get_prop fr ''url''))
      else None)"

definition surviving_frames ::
  "(jsval \<Rightarrow> 'img option) \<Rightarrow> jsval \<Rightarrow> jsval \<Rightarrow> jsval \<Rightarrow> 'img drawable list" where
  "surviving_frames load width height layer =
     List.map_filter (surviving_frame load width height layer)
       (elements (get_prop layer ''frames''))"

text \<open>
  A layer resolves to an animated layer when it is animated and a frame survives, to a
  static layer when it is not animated and its \<open>url\<close> loads, and is skipped otherwise.
  The resolved layers are those of the input, in the order of the input.
\<close>

definition resolved_layer ::
  "(jsval \<Rightarrow> 'img option) \<Rightarrow> jsval \<Rightarrow> jsval \<Rightarrow> jsval \<Rightarrow> 'img decoded_layer option" where
  "resolved_layer load width height layer =
     (if \<not> truthy layer then None
      else if is_animated layer
      then (if surviving_frames load width height layer = [] then None
            else Some (Frames (surviving_frames load width height layer)))
      else if truthy (get_prop layer ''url'')
      then map_option
             (\<lambda>im. Static im (or_else (get_prop layer ''draw'') (full_canvas width height)))
             (load (get_prop layer ''url''))
      else None)"

definition resolved_layers ::
  "(jsval \<Rightarrow> 'img option) \<Rightarrow> jsval \<Rightarrow> jsval \<Rightarrow> jsval list \<Rightarrow> 'img decoded_layer list" where
  "resolved_layers load width height layers =
     List.map_filter (resolved_layer load width height) layers"

fun frame_count :: "'img decoded_layer \<Rightarrow> nat" where
  "frame_count (Static im d) = 0"
| "frame_count (Frames fs) = length fs"

definition max_frame_count :: "'img decoded_layer list \<Rightarrow> nat" where
  \<comment> \<open>the largest number of frames of an animated layer; 0 when there is none\<close>
  "max_frame_count ls = fold max (map frame_count ls) 0"

text \<open>What a resolved layer contributes to frame \<open>i\<close>, and the fill before it.\<close>

fun drawn_at :: "jsval \<Rightarrow> jsval \<Rightarrow> nat \<Rightarrow> 'img decoded_layer \<Rightarrow> 'img canvas_op" where
  "drawn_at width height i (Static im d) = draw_image width height im d"
| "drawn_at width height i (Frames fs) =
     draw_image width height (img (fs ! (i mod length fs))) (draw (fs ! (i mod length fs)))"

definition background_fill :: "string \<Rightarrow> jsval \<Rightarrow> jsval \<Rightarrow> 'img canvas_op list" where
  "background_fill bg width height = (if bg \<noteq> [] then [FillRect (JStr bg) width height] else [])"

text \<open>Concrete inputs: three pictures load, every other URL fails.\<close>

definition load_three :: "jsval \<Rightarrow> nat option" where
  "load_three url =
     (if url = JStr ''https://cdn/backgrounds/default.png'' then Some 0
      else if url = JStr ''data:image/png;base64,QQ=='' then Some 1
      else if url = JStr ''data:image/png;base64,Qg=='' then Some 2
      else None)"

definition layers_animated :: "jsval list" where
  "layers_animated =
     [JObj [(''type'', JStr ''static''), (''url'', JStr ''https://cdn/backgrounds/default.png''),
            (''draw'', JUndefined)],
      JObj [(''type'', JStr ''pet_gif_frames''),
            (''frames'', JArr [JObj [(''url'', JStr ''data:image/png;base64,QQ=='')],
                               JObj [(''url'', JStr ''data:image/png;base64,broken'')],
                               JObj [(''url'', JStr ''data:image/png;base64,Qg=='')]])],
      JObj [(''type'', JStr ''static''), (''url'', JStr ''https://cdn/floor/missing.png''),
            (''draw'', JUndefined)],
      JObj [(''type'', JStr ''pet_gif_frames''),
            (''draw'', JObj [(''x'', JNum (Fin 5))]),
            (''frames'', JArr [JObj [(''url'', JStr ''data:image/png;base64,Qg=='')]])]]"


subsection \<open>The loops compute what the specification says\<close>

lemma filter_Boolean_slots:
  "filter_Boolean (map (\<lambda>x. slot_of (Some (g x))) xs) = List.map_filter g xs"
proof (induction xs)
  case Nil
  then show ?case by (simp add: List.map_filter_simps)
next
  case (Cons x xs)
  then show ?case
    by (cases "g x") (simp_all add: slot_of_def List.map_filter_simps)
qed

lemma map_nth_upt: "map (\<lambda>i. f (xs ! i)) [0 ..< length xs] = map f xs"
  by (rule nth_equalityI) simp_all

lemma frames_fetched:
  assumes "1 \<le> FRAME_FETCH_CONCURRENCY cfg"
  shows "mapWithConcurrency pick (elements (get_prop layer ''frames''))
           (FRAME_FETCH_CONCURRENCY cfg) (frame_mapper load width height layer)
       = Fulfilled (map (\<lambda>fr. slot_of (Some (surviving_frame load width height layer fr)))
                      (elements (get_prop layer ''frames'')))"
proof -
  have m: "frame_mapper load width height layer fr i
      = Some (surviving_frame load width height layer fr)" for fr i
    by (simp add: frame_mapper_def surviving_frame_def split: option.splits)
  show ?thesis
    unfolding mapWithConcurrency_fulfilled [OF assms] m
    by (simp add: map_nth_upt [of "\<lambda>fr. slot_of (Some (surviving_frame load width height layer fr))"])
qed

lemma decode_layers_resolved:
  assumes "1 \<le> FRAME_FETCH_CONCURRENCY cfg"
  shows "decode_layers cfg load pick width height layers decodedLayers maxFrames
       = Fulfilled (decodedLayers @ resolved_layers load width height layers,
                    fold max (map frame_count (resolved_layers load width height layers))
                      maxFrames)"
proof (induction layers arbitrary: decodedLayers maxFrames)
  case Nil
  then show ?case by (simp add: resolved_layers_def List.map_filter_simps)
next
  case (Cons layer layers)
  let ?fs = "surviving_frames load width height layer"
  have per: "filter_Boolean
      (map (\<lambda>fr. slot_of (Some (surviving_frame load width height layer fr)))
         (elements (get_prop layer ''frames''))) = ?fs"
    by (simp add: filter_Boolean_slots surviving_frames_def)
  have cons: "resolved_layers load width height (layer # layers)
      = (case resolved_layer load width height layer of
           None \<Rightarrow> resolved_layers load width height layers
         | Some l \<Rightarrow> l # resolved_layers load width height layers)"
    unfolding resolved_layers_def by simp
  show ?case
  proof (cases "truthy layer")
    case False
    then show ?thesis using Cons.IH by (simp add: cons resolved_layer_def)
  next
    case t: True
    show ?thesis
    proof (cases "is_animated layer")
      case True
      show ?thesis
      proof (cases "?fs = []")
        case True
        with t \<open>is_animated layer\<close> show ?thesis
          using Cons.IH
          by (simp add: cons resolved_layer_def frames_fetched [OF assms] per Let_def)
      next
        case False
        with t \<open>is_animated layer\<close> show ?thesis
          using Cons.IH
          by (simp add: cons resolved_layer_def frames_fetched [OF assms] per max.commute Let_def)
      qed
    next
      case False
      show ?thesis
      proof (cases "truthy (get_prop layer ''url'')")
        case True
        with t False show ?thesis
          using Cons.IH
          by (cases "load (get_prop layer ''url'')") (simp_all add: cons resolved_layer_def)
      next
        case False
        with t \<open>\<not> is_animated layer\<close> show ?thesis
          using Cons.IH by (simp add: cons resolved_layer_def)
      qed
    qed
  qed
qed

lemma draw_layers_concat:
  "draw_layers width height i ls canvas = canvas @ concat (map (layer_ops width height i) ls)"
  by (induction ls arbitrary: canvas) simp_all

lemma frame_loop_map:
  "frame_loop bg width height ls i n [] frames
     = frames @ map (\<lambda>j. background_fill bg width height
                           @ concat (map (layer_ops width height j) ls)) [i ..< n]"
proof (induction "n - i" arbitrary: i frames)
  case 0
  then have "\<not> i < n" by simp
  then show ?case by (subst frame_loop.simps) simp
next
  case (Suc k)
  then have lt: "i < n" and k: "k = n - Suc i" by simp_all
  have "frame_loop bg width height ls i n [] frames
      = frame_loop bg width height ls (Suc i) n []
          (frames @ [background_fill bg width height
                       @ concat (map (layer_ops width height i) ls)])"
    using lt
    by (subst frame_loop.simps) (simp add: Let_def draw_layers_concat background_fill_def)
  also have "\<dots> = (frames @ [background_fill bg width height
                       @ concat (map (layer_ops width height i) ls)])
      @ map (\<lambda>j. background_fill bg width height
                    @ concat (map (layer_ops width height j) ls)) [Suc i ..< n]"
    by (rule Suc.hyps(1) [OF k])
  finally show ?case using lt by (simp add: upt_conv_Cons)
qed

text \<open>Every resolved animated layer has a frame, and every frame has a rectangle.\<close>

definition well_drawn :: "'img decoded_layer \<Rightarrow> bool" where
  "well_drawn l = (case l of Static im d \<Rightarrow> True
                   | Frames fs \<Rightarrow> fs \<noteq> [] \<and> list_all (\<lambda>f. truthy (draw f)) fs)"

lemma truthy_full_canvas: "truthy (or_else a (or_else b (full_canvas width height)))"
  by (simp add: or_else_def full_canvas_def)

lemma in_set_map_filter:
  "y \<in> set (List.map_filter f xs) \<longleftrightarrow> (\<exists>x \<in> set xs. f x = Some y)"
  by (induction xs) (auto split: option.splits)

lemma surviving_frames_truthy:
  "list_all (\<lambda>f. truthy (draw f)) (surviving_frames load width height layer)"
proof -
  have "f \<in> set (surviving_frames load width height layer) \<Longrightarrow> truthy (draw f)" for f
    unfolding surviving_frames_def in_set_map_filter surviving_frame_def
    by (auto simp: truthy_full_canvas split: if_splits)
  then show ?thesis by (simp add: list_all_iff)
qed

lemma resolved_layers_well_drawn:
  "l \<in> set (resolved_layers load width height layers) \<Longrightarrow> well_drawn l"
  unfolding resolved_layers_def in_set_map_filter resolved_layer_def
  by (auto simp: well_drawn_def surviving_frames_truthy split: if_splits)

lemma layer_ops_drawn_at:
  assumes "well_drawn l"
  shows "layer_ops width height i l = [drawn_at width height i l]"
proof (cases l)
  case (Static im d)
  then show ?thesis by (simp add: layer_ops_def)
next
  case (Frames fs)
  with assms have ne: "fs \<noteq> []" and all: "list_all (\<lambda>f. truthy (draw f)) fs"
    by (simp_all add: well_drawn_def)
  from ne have "i mod length fs < length fs" by simp
  with all have "truthy (draw (fs ! (i mod length fs)))"
    by (simp add: list_all_length)
  then show ?thesis using Frames ne by (simp add: layer_ops_def or_else_def Let_def)
qed

lemma concat_layer_ops:
  assumes "\<And>l. l \<in> set ls \<Longrightarrow> well_drawn l"
  shows "concat (map (layer_ops width height i) ls) = map (drawn_at width height i) ls"
  using assms
proof (induction ls)
  case Nil
  then show ?case by simp
next
  case (Cons l ls)
  then show ?case by (simp add: layer_ops_drawn_at)
qed

subsection \<open>The frames of an animated composition\<close>

text \<open>
  C2.  When at least one animated layer retains a decoded frame (and the options
  coerce, and the frame fetches are given a positive concurrency limit, so that
  \<open>composeGif\<close> gets that far), \<open>composeGif\<close> is fulfilled with a GIF whose frames are
  as many as the largest number of surviving frames of an animated layer, and whose
  frame \<open>i\<close> is the background fill (when a background colour is set) followed by one
  \<open>drawImage\<close> per resolved layer, in the order of the input: the picture of a static
  layer, and frame \<open>i mod n\<close> of an animated layer with \<open>n\<close> surviving frames.
\<close>

theorem composeGif_frames:
  assumes "1 \<le> FRAME_FETCH_CONCURRENCY cfg"
    and "read_gif_options B cfg options = Inr opts"
    and "0 < max_frame_count (resolved_layers load width height layers)"
  shows "composeGif B cfg load pick width height layers options
       = Fulfilled
           \<lparr>format = ''gif'',
            buffer = Gif (encoder_of opts)
              (map (\<lambda>i. background_fill (backgroundHex opts) width height
                          @ map (drawn_at width height i)
                              (resolved_layers load width height layers))
                 [0 ..< max_frame_count (resolved_layers load width height layers)])\<rparr>"
proof -
  let ?ls = "resolved_layers load width height layers"
  have dec: "decode_layers cfg load pick width height layers [] 0
      = Fulfilled (?ls, max_frame_count ?ls)"
    using decode_layers_resolved [OF assms(1), of load pick width height layers "[]" 0]
    by (simp add: max_frame_count_def)
  have ops: "concat (map (layer_ops width height i) ?ls) = map (drawn_at width height i) ?ls"
    for i
    by (rule concat_layer_ops) (rule resolved_layers_well_drawn)
  have loop: "frame_loop (backgroundHex opts) width height ?ls 0 (max_frame_count ?ls) [] []
      = map (\<lambda>i. background_fill (backgroundHex opts) width height
                    @ map (drawn_at width height i) ?ls) [0 ..< max_frame_count ?ls]"
    unfolding frame_loop_map ops by simp
  show ?thesis
    unfolding composeGif_def assms(2) dec
    using assms(3) by (simp add: bind_promise_def loop)
qed

theorem composeGif_frames_witness:
  "max_frame_count (resolved_layers load_three (JNum (Fin 300)) (JNum (Fin 200)) layers_animated)
     = 2
   \<and> (\<forall>pick. composeGif builtins_stub default_config load_three pick
          (JNum (Fin 300)) (JNum (Fin 200)) layers_animated (JObj [])
        = Fulfilled
            \<lparr>format = ''gif'',
             buffer = Gif \<lparr>enc_delay = Fin 180, enc_repeat = Fin 0, enc_quality = Fin 10,
                           enc_transparent = None\<rparr>
               [[DrawImage 0 (JNum (Fin 0)) (JNum (Fin 0)) (JNum (Fin 300)) (JNum (Fin 200)),
                 DrawImage 1 (JNum (Fin 0)) (JNum (Fin 0)) (JNum (Fin 300)) (JNum (Fin 200)),
                 DrawImage 2 (JNum (Fin 5)) (JNum (Fin 0)) (JNum (Fin 300)) (JNum (Fin 200))],
                [DrawImage 0 (JNum (Fin 0)) (JNum (Fin 0)) (JNum (Fin 300)) (JNum (Fin 200)),
                 DrawImage 2 (JNum (Fin 0)) (JNum (Fin 0)) (JNum (Fin 300)) (JNum (Fin 200)),
                 DrawImage 2 (JNum (Fin 5)) (JNum (Fin 0)) (JNum (Fin 300)) (JNum (Fin 200))]]\<rparr>)"
proof -
  let ?w = "JNum (Fin 300)" and ?h = "JNum (Fin 200)"
  have lim: "1 \<le> FRAME_FETCH_CONCURRENCY default_config"
    by (simp add: default_config_def)
  have opts: "read_gif_options builtins_stub default_config (JObj [])
      = Inr \<lparr>delayMs = Fin 180, repeat_count = Fin 0, quality = Fin 10,
             wantTransparent = False, transparentInt = NaN, backgroundHex = []\<rparr>"
    by (simp add: read_gif_options_def default_config_def builtins_stub_def bind_err_def
        or_else_def nullish_or_def nullish_def)
  have res: "resolved_layers load_three ?w ?h layers_animated
      = [Static 0 (full_canvas ?w ?h),
         Frames [\<lparr>img = 1, draw = full_canvas ?w ?h\<rparr>, \<lparr>img = 2, draw = full_canvas ?w ?h\<rparr>],
         Frames [\<lparr>img = 2, draw = JObj [(''x'', JNum (Fin 5))]\<rparr>]]"
    by (simp add: resolved_layers_def resolved_layer_def layers_animated_def is_animated_def
        surviving_frames_def surviving_frame_def load_three_def or_else_def full_canvas_def)
  have n: "max_frame_count (resolved_layers load_three ?w ?h layers_animated) = 2"
    unfolding res by (simp add: max_frame_count_def)
  have pos: "0 < max_frame_count (resolved_layers load_three ?w ?h layers_animated)"
    unfolding n by simp
  have upt: "[0 ..< 2] = [0, Suc 0]" by (simp add: upt_conv_Cons)
  have "composeGif builtins_stub default_config load_three pick ?w ?h layers_animated (JObj [])
        = Fulfilled
            \<lparr>format = ''gif'',
             buffer = Gif \<lparr>enc_delay = Fin 180, enc_repeat = Fin 0, enc_quality = Fin 10,
                           enc_transparent = None\<rparr>
               [[DrawImage 0 (JNum (Fin 0)) (JNum (Fin 0)) ?w ?h,
                 DrawImage 1 (JNum (Fin 0)) (JNum (Fin 0)) ?w ?h,
                 DrawImage 2 (JNum (Fin 5)) (JNum (Fin 0)) ?w ?h],
                [DrawImage 0 (JNum (Fin 0)) (JNum (Fin 0)) ?w ?h,
                 DrawImage 2 (JNum (Fin 0)) (JNum (Fin 0)) ?w ?h,
                 DrawImage 2 (JNum (Fin 5)) (JNum (Fin 0)) ?w ?h]]\<rparr>" for pick
    unfolding composeGif_frames [OF lim opts pos] n upt
    unfolding res
    by (simp add: encoder_of_def background_fill_def draw_image_def full_canvas_def or_else_def)
  with n show ?thesis by blast
qed

section \<open>The render of a job (lines 485-505)\<close>



text \<open>
  What a render does is the list of its calls of \<open>fsp.writeFile\<close>, each with the name of
  the file in the output directory and the buffer, and the way its promise ends.
  \<open>writeFile name buf\<close> is the outcome of one such call: \<open>None\<close> when it succeeds and the
  error when it rejects.  The URL that is returned ends in the name of the file.
\<close>

type_synonym 'img render_result = "(string \<times> 'img encoded) list \<times> string promise_result"




text \<open>\<open>url.endsWith('.gif') ? 'gif' : 'png'\<close>, the format recorded for a finished job.\<close>

definition ends_with :: "string \<Rightarrow> string \<Rightarrow> bool" where
  "ends_with s suffix \<longleftrightarrow>
     length suffix \<le> length s \<and> drop (length s - length suffix) s = suffix"

definition format_of_url :: "string \<Rightarrow> string" where
  "format_of_url url = (if ends_with url ''.gif'' then ''gif'' else ''png'')"



lemma format_of_gif_url: "format_of_url (u @ ''.gif'') = ''gif''"
  by (simp add: format_of_url_def ends_with_def)

section \<open>The job registry and the in-flight table (lines 35-36, 396-524)\<close>

text \<open>
  A record of the registry.  The status is one of the strings \<open>pending\<close>, \<open>done\<close> and
  \<open>error\<close>; the other fields are those the code writes.
\<close>

datatype job_status = StatusPending | StatusDone | StatusError

record job =
  status :: job_status
  job_url :: "string option"
  job_format :: "string option"
  job_error :: "string option"
  createdAt :: nat
  finishedAt :: "nat option"
  job_payload :: "jsval option"

definition pending_job :: "nat \<Rightarrow> jsval \<Rightarrow> job" where
  \<comment> \<open>line 423\<close>
  "pending_job now payload =
     \<lparr>status = StatusPending, job_url = None, job_format = None, job_error = None,
      createdAt = now, finishedAt = None, job_payload = Some payload\<rparr>"

definition done_job :: "string \<Rightarrow> string \<Rightarrow> nat \<Rightarrow> nat \<Rightarrow> jsval option \<Rightarrow> job" where
  \<comment> \<open>lines 446, 452, 462, 509\<close>
  "done_job url fmt created now payload =
     \<lparr>status = StatusDone, job_url = Some url, job_format = Some fmt, job_error = None,
      createdAt = created, finishedAt = Some now, job_payload = payload\<rparr>"

fun error_message :: "js_error \<Rightarrow> string" where
  \<comment> \<open>\<open>e.message || String(e)\<close>; the text for a \<open>TypeError\<close> is the engine's and stands
      for itself here\<close>
  "error_message TypeError = ''TypeError''"
| "error_message (Error msg) = (if msg \<noteq> [] then msg else ''Error'')"

definition error_job :: "string \<Rightarrow> nat \<Rightarrow> nat \<Rightarrow> job" where
  \<comment> \<open>line 512\<close>
  "error_job msg created now =
     \<lparr>status = StatusError, job_url = None, job_format = None, job_error = Some msg,
      createdAt = created, finishedAt = Some now, job_payload = None\<rparr>"

text \<open>
  The state of the process.  \<open>jobs\<close> and \<open>inFlightByKey\<close> are the two maps; the table
  holds references to promises, so the promises live in a store of their own
  (\<open>allocated\<close> counts them, and the next one gets that number).  \<open>files\<close> are the names
  of the artifacts in the output directory.  \<open>tasks\<close> holds, for each job whose
  asynchronous function has not returned, where that function stands: not yet
  started; suspended at the \<open>await\<close> of line 460 on the promise of another job; or
  suspended at the \<open>await\<close> of line 507 on its own render promise.
\<close>

datatype settled = Unsettled | Resolved string | RejectedWith js_error

datatype task = AtStart | AwaitDedup string nat | AwaitRender string nat

record server =
  jobs :: "string \<rightharpoonup> job"
  inFlightByKey :: "string \<rightharpoonup> nat"
  promises :: "nat \<rightharpoonup> settled"
  allocated :: nat
  files :: "string set"
  tasks :: "string \<rightharpoonup> task"

definition server_start :: server where
  "server_start =
     \<lparr>jobs = Map.empty, inFlightByKey = Map.empty, promises = Map.empty, allocated = 0,
      files = {}, tasks = Map.empty\<rparr>"

text \<open>
  What the process is configured with.  \<open>resolve_layers\<close> is the loop of lines 470-481
  (with \<open>resolveCdnUrlByLayer\<close> and \<open>slugify\<close>) taken as a parameter: the resolved
  layers of a payload, or the error a coercion in it raises.
\<close>

record server_config =
  builtins :: js_builtins
  job_limits :: limits
  BASE_URL :: string
  resolve_layers :: "jsval \<Rightarrow> js_error + jsval list"

text \<open>The two ways the asynchronous function of a job ends.\<close>

definition fail_job :: "string \<Rightarrow> js_error \<Rightarrow> nat \<Rightarrow> server \<Rightarrow> server" where
  \<comment> \<open>the \<open>catch\<close> block, lines 511-514; \<open>createdAt\<close> is
      \<open>jobs.get(jobId)?.createdAt || Date.now()\<close>\<close>
  "fail_job jid e now s =
     s\<lparr>jobs := (jobs s)(jid \<mapsto>
            error_job (error_message e)
              (case jobs s jid of
                 None \<Rightarrow> now
               | Some j \<Rightarrow> if createdAt j \<noteq> 0 then createdAt j else now)
              now),
       tasks := (tasks s)(jid := None)\<rparr>"

definition finish_job :: "string \<Rightarrow> string \<Rightarrow> string \<Rightarrow> nat \<Rightarrow> server \<Rightarrow> server" where
  \<comment> \<open>\<open>jobs.set(jobId, { status: 'done', ... })\<close> and \<open>return\<close>; the read
      \<open>jobs.get(jobId).createdAt\<close> raises when the job is not in the registry\<close>
  "finish_job jid url fmt now s =
     (case jobs s jid of
        None \<Rightarrow> fail_job jid TypeError now s
      | Some j \<Rightarrow>
          s\<lparr>jobs := (jobs s)(jid \<mapsto> done_job url fmt (createdAt j) now (job_payload j)),
            tasks := (tasks s)(jid := None)\<rparr>)"

text \<open>
  \<open>wantsGif\<close> (line 434): the format in lower case is \<open>gif\<close>, or some layer that is
  truthy has the type \<open>pet_gif_frames\<close> as a string.
\<close>

fun some_truthy_frames_layer :: "js_builtins \<Rightarrow> jsval list \<Rightarrow> js_error + bool" where
  "some_truthy_frames_layer B [] = Inr False"
| "some_truthy_frames_layer B (l # ls) =
     (if \<not> truthy l then some_truthy_frames_layer B ls
      else bind_err (js_String B (get_prop l ''type'')) (\<lambda>t.
             if t = ''pet_gif_frames'' then Inr True else some_truthy_frames_layer B ls))"

definition wants_gif :: "js_builtins \<Rightarrow> jsval \<Rightarrow> js_error + bool" where
  "wants_gif B payload =
     bind_err (js_String B (or_else (get_prop payload ''format'') (JStr []))) (\<lambda>f.
       if list_all2 ci_eq ''gif'' f then Inr True
       else some_truthy_frames_layer B
              (if is_array (get_prop payload ''layers'')
               then elements (get_prop payload ''layers'') else []))"

text \<open>
  Lines 470-507, up to the \<open>await\<close>: the layers are resolved, the render promise is
  created and put into the table under the fingerprint, and the function suspends.
\<close>

definition start_render :: "server_config \<Rightarrow> string \<Rightarrow> string \<Rightarrow> jsval \<Rightarrow> nat \<Rightarrow> server \<Rightarrow> server" where
  "start_render cfg jid cacheKey payload now s =
     (case resolve_layers cfg payload of
        Inl e \<Rightarrow> fail_job jid e now s
      | Inr resolvedLayers \<Rightarrow>
          s\<lparr>promises := (promises s)(allocated s \<mapsto> Unsettled),
            allocated := allocated s + 1,
            inFlightByKey := (inFlightByKey s)(cacheKey \<mapsto> allocated s),
            tasks := (tasks s)(jid \<mapsto> AwaitRender cacheKey (allocated s))\<rparr>)"

text \<open>
  The handler (lines 397-424): a payload that passes the checks is put into the
  registry as pending, and the asynchronous function of the job is started -- unless
  the coercion of line 424 raises, after the registry was written.
\<close>

definition accept_job :: "server_config \<Rightarrow> string \<Rightarrow> jsval \<Rightarrow> nat \<Rightarrow> server \<Rightarrow> server" where
  "accept_job cfg uuid body now s =
     (let payload = or_else body (JObj []) in
      case validate_payload (builtins cfg) (job_limits cfg) payload of
        Inr None \<Rightarrow>
          (case js_String (builtins cfg) (or_else (get_prop payload ''format'') (JStr [])) of
             Inl e \<Rightarrow> s\<lparr>jobs := (jobs s)(uuid \<mapsto> pending_job now payload)\<rparr>
           | Inr f \<Rightarrow> s\<lparr>jobs := (jobs s)(uuid \<mapsto> pending_job now payload),
                        tasks := (tasks s)(uuid \<mapsto> AtStart)\<rparr>)
      | Inr (Some msg) \<Rightarrow> s
      | Inl e \<Rightarrow> s)"

text \<open>
  Lines 427-467, up to the first \<open>await\<close>: the fingerprint, the two files, the table.
\<close>

definition task_begin :: "server_config \<Rightarrow> string \<Rightarrow> nat \<Rightarrow> server \<Rightarrow> server" where
  "task_begin cfg jid now s =
     (case tasks s jid of
        Some AtStart \<Rightarrow>
          (case jobs s jid of
             None \<Rightarrow> fail_job jid TypeError now s
           | Some j \<Rightarrow>
               let payload = (case job_payload j of Some p \<Rightarrow> p | None \<Rightarrow> JUndefined) in
               case bind_err (wants_gif (builtins cfg) payload)
                      (\<lambda>wantsGif. stableHashPayload (builtins cfg) payload) of
                 Inl e \<Rightarrow> fail_job jid e now s
               | Inr cacheKey \<Rightarrow>
                   if cacheKey @ ''.gif'' \<in> files s
                   then finish_job jid (BASE_URL cfg @ ''/out/'' @ cacheKey @ ''.gif'') ''gif''
                          now s
                   else if cacheKey @ ''.png'' \<in> files s
                   then finish_job jid (BASE_URL cfg @ ''/out/'' @ cacheKey @ ''.png'') ''png''
                          now s
                   else (case inFlightByKey s cacheKey of
                           Some p \<Rightarrow> s\<lparr>tasks := (tasks s)(jid \<mapsto> AwaitDedup cacheKey p)\<rparr>
                         | None \<Rightarrow> start_render cfg jid cacheKey payload now s))
      | _ \<Rightarrow> s)"

text \<open>
  The function resumes after \<open>await p.catch(() => null)\<close> (lines 460-466), once the
  promise it joined is settled: with a truthy URL the job is done; otherwise it goes on
  to a render of its own.
\<close>

definition dedup_resume :: "server_config \<Rightarrow> string \<Rightarrow> nat \<Rightarrow> server \<Rightarrow> server" where
  "dedup_resume cfg jid now s =
     (case tasks s jid of
        Some (AwaitDedup cacheKey p) \<Rightarrow>
          (let payload = (case jobs s jid of
                            None \<Rightarrow> JUndefined
                          | Some j \<Rightarrow> (case job_payload j of Some q \<Rightarrow> q | None \<Rightarrow> JUndefined))
           in case promises s p of
                Some (Resolved url) \<Rightarrow>
                  if url \<noteq> [] then finish_job jid url (format_of_url url) now s
                  else start_render cfg jid cacheKey payload now s
              | Some (RejectedWith e) \<Rightarrow> start_render cfg jid cacheKey payload now s
              | _ \<Rightarrow> s)
      | _ \<Rightarrow> s)"

text \<open>
  A render promise settles: fulfilled, after the artifact \<open>name\<close> was written, with the
  URL of that file; or rejected with an error.
\<close>

definition render_settle :: "server_config \<Rightarrow> nat \<Rightarrow> js_error + string \<Rightarrow> server \<Rightarrow> server" where
  "render_settle cfg p outcome s =
     (case promises s p of
        Some Unsettled \<Rightarrow>
          (case outcome of
             Inr name \<Rightarrow>
               s\<lparr>promises := (promises s)(p \<mapsto> Resolved (BASE_URL cfg @ ''/out/'' @ name)),
                 files := insert name (files s)\<rparr>
           | Inl e \<Rightarrow> s\<lparr>promises := (promises s)(p \<mapsto> RejectedWith e)\<rparr>)
      | _ \<Rightarrow> s)"

text \<open>
  The function resumes after \<open>await renderPromise\<close> (lines 507-510), once that promise
  is settled.  Fulfilled: the entry of the table is deleted and the job is done.
  Rejected: the \<open>await\<close> raises, control goes to the \<open>catch\<close> block, and line 508 is
  not run.
\<close>

definition render_resume :: "string \<Rightarrow> nat \<Rightarrow> server \<Rightarrow> server" where
  "render_resume jid now s =
     (case tasks s jid of
        Some (AwaitRender cacheKey p) \<Rightarrow>
          (case promises s p of
             Some (Resolved url) \<Rightarrow>
               finish_job jid url (format_of_url url) now
                 (s\<lparr>inFlightByKey := (inFlightByKey s)(cacheKey := None)\<rparr>)
           | Some (RejectedWith e) \<Rightarrow> fail_job jid e now s
           | _ \<Rightarrow> s)
      | _ \<Rightarrow> s)"

text \<open>\<open>GET /jobs/:id\<close> (lines 520-524) reads the registry and changes nothing.\<close>

definition poll :: "string \<Rightarrow> server \<Rightarrow> job option" where
  "poll jid s = jobs s jid"

text \<open>
  The events of the process.  The handler and the start of the asynchronous function
  run in one turn of the event loop; they are two events here, so every interleaving
  of the process is a run of the model (and the model has more).  Each event carries
  what the environment supplies: the identifier, the body, the time, and the outcome
  of a render.
\<close>

datatype event =
    Accept string jsval nat
  | TaskBegin string nat
  | DedupResume string nat
  | RenderSettle nat "js_error + string"
  | RenderResume string nat
  | Poll string

fun step :: "server_config \<Rightarrow> event \<Rightarrow> server \<Rightarrow> server" where
  "step cfg (Accept uuid body now) s = accept_job cfg uuid body now s"
| "step cfg (TaskBegin jid now) s = task_begin cfg jid now s"
| "step cfg (DedupResume jid now) s = dedup_resume cfg jid now s"
| "step cfg (RenderSettle p outcome) s = render_settle cfg p outcome s"
| "step cfg (RenderResume jid now) s = render_resume jid now s"
| "step cfg (Poll jid) s = s"

fun run :: "server_config \<Rightarrow> event list \<Rightarrow> server \<Rightarrow> server" where
  "run cfg [] s = s"
| "run cfg (ev # evs) s = run cfg evs (step cfg ev s)"

text \<open>
  \<open>crypto.randomUUID()\<close> gives an identifier that no job has: an \<open>Accept\<close> event is
  fresh in a state whose registry does not hold its identifier.
\<close>

fun fresh :: "event \<Rightarrow> server \<Rightarrow> bool" where
  "fresh (Accept uuid body now) s = (jobs s uuid = None)"
| "fresh ev s = True"

fun fresh_run :: "server_config \<Rightarrow> event list \<Rightarrow> server \<Rightarrow> bool" where
  "fresh_run cfg [] s = True"
| "fresh_run cfg (ev # evs) s = (fresh ev s \<and> fresh_run cfg evs (step cfg ev s))"

text \<open>
  The invariant: only a pending job has an asynchronous function that has not
  returned.
\<close>

definition registry_inv :: "server \<Rightarrow> bool" where
  "registry_inv s \<longleftrightarrow>
     (\<forall>jid t. tasks s jid = Some t \<longrightarrow>
        (\<exists>j. jobs s jid = Some j \<and> status j = StatusPending))"

text \<open>
  How the record of one identifier may change in one event: a new record is pending;
  a pending record stays a record; a record that is done or in error stays as it is.
\<close>

definition transition_ok :: "job option \<Rightarrow> job option \<Rightarrow> bool" where
  "transition_ok old new =
     (case old of
        None \<Rightarrow> (case new of None \<Rightarrow> True | Some j \<Rightarrow> status j = StatusPending)
      | Some j \<Rightarrow> if status j = StatusPending then new \<noteq> None else new = Some j)"

definition terminal :: "job \<Rightarrow> bool" where
  "terminal j \<longleftrightarrow> status j = StatusDone \<or> status j = StatusError"

text \<open>A configuration for closed examples.\<close>

definition config_stub :: server_config where
  "config_stub =
     \<lparr>builtins = builtins_stub, job_limits = default_limits,
      BASE_URL = ''http://localhost:8081'', resolve_layers = (\<lambda>payload. Inr [])\<rparr>"

definition payload_floor :: jsval where
  "payload_floor =
     JObj [(''guild'', JStr ''g''), (''user'', JStr ''u''),
           (''size'', JObj [(''width'', JNum (Fin 300)), (''height'', JNum (Fin 300))]),
           (''layers'', JArr [JObj [(''type'', JStr ''floor''), (''key'', JStr ''Wood 01'')]])]"

subsection \<open>Each event respects the life cycle of every job\<close>

text \<open>
  An event of the asynchronous function of job \<open>jid\<close> touches the record and the task
  of that job only, leaves a record in the registry, and leaves the record as it was
  whenever the function has not returned.
\<close>

definition task_step :: "string \<Rightarrow> server \<Rightarrow> server \<Rightarrow> bool" where
  "task_step jid s s' \<longleftrightarrow>
     (\<forall>k. k \<noteq> jid \<longrightarrow> jobs s' k = jobs s k \<and> tasks s' k = tasks s k)
     \<and> jobs s' jid \<noteq> None
     \<and> (tasks s' jid \<noteq> None \<longrightarrow> jobs s' jid = jobs s jid)"

lemma transition_ok_refl: "transition_ok j j"
  by (simp add: transition_ok_def split: option.splits)

lemma fail_job_task_step: "task_step jid s (fail_job jid e now s)"
  by (simp add: task_step_def fail_job_def)

lemma finish_job_task_step: "task_step jid s (finish_job jid url fmt now s)"
  by (simp add: task_step_def finish_job_def fail_job_def split: option.splits)

lemma start_render_task_step:
  "jobs s jid \<noteq> None \<Longrightarrow> task_step jid s (start_render cfg jid cacheKey payload now s)"
  by (auto simp: task_step_def start_render_def fail_job_def split: sum.splits)

lemma task_step_same_jobs:
  assumes "task_step jid s' s''" and "jobs s' = jobs s" and "tasks s' = tasks s"
  shows "task_step jid s s''"
  using assms by (simp add: task_step_def)

lemma task_begin_task_step:
  assumes "tasks s jid = Some AtStart" and "jobs s jid \<noteq> None"
  shows "task_step jid s (task_begin cfg jid now s)"
proof -
  from assms(2) obtain j where j: "jobs s jid = Some j" by blast
  define payload where "payload = (case job_payload j of Some p \<Rightarrow> p | None \<Rightarrow> JUndefined)"
  show ?thesis
  proof (cases "bind_err (wants_gif (builtins cfg) payload)
      (\<lambda>wantsGif. stableHashPayload (builtins cfg) payload)")
    case (Inl e)
    then show ?thesis
      using assms(1) j by (simp add: task_begin_def payload_def fail_job_task_step)
  next
    case (Inr cacheKey)
    have wait: "task_step jid s (s\<lparr>tasks := (tasks s)(jid \<mapsto> AwaitDedup cacheKey p)\<rparr>)" for p
      using j by (simp add: task_step_def)
    show ?thesis
      using assms(1) j Inr
      by (simp add: task_begin_def payload_def [symmetric] Let_def finish_job_task_step wait
          start_render_task_step split: option.splits)
  qed
qed

lemma dedup_resume_task_step:
  assumes "tasks s jid = Some (AwaitDedup cacheKey p)" and "jobs s jid \<noteq> None"
  shows "dedup_resume cfg jid now s = s \<or> task_step jid s (dedup_resume cfg jid now s)"
  using assms
  by (auto simp: dedup_resume_def Let_def finish_job_task_step start_render_task_step
      split: option.splits settled.splits)

lemma render_resume_task_step:
  assumes "tasks s jid = Some (AwaitRender cacheKey p)"
  shows "render_resume jid now s = s \<or> task_step jid s (render_resume jid now s)"
proof (cases "promises s p")
  case None
  with assms show ?thesis by (simp add: render_resume_def)
next
  case (Some st)
  show ?thesis
  proof (cases st)
    case Unsettled
    with Some assms show ?thesis by (simp add: render_resume_def)
  next
    case (Resolved url)
    let ?s' = "s\<lparr>inFlightByKey := (inFlightByKey s)(cacheKey := None)\<rparr>"
    have "task_step jid ?s' (finish_job jid url (format_of_url url) now ?s')"
      by (rule finish_job_task_step)
    then have "task_step jid s (finish_job jid url (format_of_url url) now ?s')"
      by (rule task_step_same_jobs) simp_all
    with Some Resolved assms show ?thesis by (simp add: render_resume_def)
  next
    case (RejectedWith e)
    with Some assms show ?thesis by (simp add: render_resume_def fail_job_task_step)
  qed
qed

lemma task_step_inv:
  assumes "registry_inv s" and "tasks s jid \<noteq> None" and "task_step jid s s'"
  shows "registry_inv s'" and "transition_ok (jobs s k) (jobs s' k)"
proof -
  from assms(1,2) obtain j where j: "jobs s jid = Some j" "status j = StatusPending"
    by (auto simp: registry_inv_def)
  show "registry_inv s'"
    unfolding registry_inv_def
  proof (intro allI impI)
    fix k t assume t: "tasks s' k = Some t"
    show "\<exists>j. jobs s' k = Some j \<and> status j = StatusPending"
    proof (cases "k = jid")
      case True
      with t assms(3) have "jobs s' jid = jobs s jid" by (simp add: task_step_def)
      with True j show ?thesis by simp
    next
      case False
      with assms(3) have "jobs s' k = jobs s k" "tasks s' k = tasks s k"
        by (simp_all add: task_step_def)
      with t assms(1) show ?thesis by (simp add: registry_inv_def)
    qed
  qed
  show "transition_ok (jobs s k) (jobs s' k)"
  proof (cases "k = jid")
    case True
    from assms(3) have "jobs s' jid \<noteq> None" by (simp add: task_step_def)
    with True j show ?thesis by (simp add: transition_ok_def)
  next
    case False
    with assms(3) have "jobs s' k = jobs s k" by (simp add: task_step_def)
    then show ?thesis by (simp add: transition_ok_refl)
  qed
qed

lemma accept_job_inv:
  assumes "registry_inv s" and "jobs s uuid = None"
  shows "registry_inv (accept_job cfg uuid body now s)"
    and "transition_ok (jobs s k) (jobs (accept_job cfg uuid body now s) k)"
proof -
  let ?payload = "or_else body (JObj [])"
  let ?s1 = "s\<lparr>jobs := (jobs s)(uuid \<mapsto> pending_job now ?payload)\<rparr>"
  let ?s2 = "s\<lparr>jobs := (jobs s)(uuid \<mapsto> pending_job now ?payload),
                 tasks := (tasks s)(uuid \<mapsto> AtStart)\<rparr>"
  have cases: "accept_job cfg uuid body now s = s \<or> accept_job cfg uuid body now s = ?s1
      \<or> accept_job cfg uuid body now s = ?s2"
    by (simp add: accept_job_def Let_def split: sum.splits option.splits)
  have no_task: "tasks s uuid = None"
    using assms by (auto simp: registry_inv_def)
  have i1: "registry_inv ?s1"
    using assms(1) no_task unfolding registry_inv_def by (auto simp: pending_job_def)
  have i2: "registry_inv ?s2"
    using assms(1) unfolding registry_inv_def by (auto simp: pending_job_def)
  show "registry_inv (accept_job cfg uuid body now s)"
    using cases assms(1) i1 i2 by auto
  have t1: "transition_ok (jobs s k) (jobs ?s1 k)"
    using assms(2) by (simp add: transition_ok_def pending_job_def transition_ok_refl
        split: option.splits)
  have t2: "transition_ok (jobs s k) (jobs ?s2 k)"
    using assms(2) by (simp add: transition_ok_def pending_job_def transition_ok_refl
        split: option.splits)
  show "transition_ok (jobs s k) (jobs (accept_job cfg uuid body now s) k)"
    using cases t1 t2 transition_ok_refl [of "jobs s k"] by auto
qed

lemma step_inv:
  assumes "registry_inv s" and "fresh ev s"
  shows "registry_inv (step cfg ev s) \<and> transition_ok (jobs s k) (jobs (step cfg ev s) k)"
proof (cases ev)
  case (Accept uuid body now)
  with assms show ?thesis by (simp add: accept_job_inv)
next
  case (TaskBegin jid now)
  show ?thesis
  proof (cases "tasks s jid = Some AtStart")
    case True
    with assms(1) have "jobs s jid \<noteq> None" by (auto simp: registry_inv_def)
    with True have "task_step jid s (task_begin cfg jid now s)"
      by (simp add: task_begin_task_step)
    with assms(1) True TaskBegin show ?thesis
      using task_step_inv(1) [of s jid "task_begin cfg jid now s"] task_step_inv(2) [of s jid "task_begin cfg jid now s" k]
        by simp
  next
    case False
    then have "task_begin cfg jid now s = s"
      by (simp add: task_begin_def split: option.splits task.splits)
    with assms(1) TaskBegin show ?thesis by (simp add: transition_ok_refl)
  qed
next
  case (DedupResume jid now)
  show ?thesis
  proof (cases "\<exists>cacheKey p. tasks s jid = Some (AwaitDedup cacheKey p)")
    case True
    then obtain cacheKey p where t: "tasks s jid = Some (AwaitDedup cacheKey p)" by blast
    with assms(1) have "jobs s jid \<noteq> None" by (auto simp: registry_inv_def)
    from dedup_resume_task_step [OF t this, of cfg now]
    show ?thesis
    proof
      assume "dedup_resume cfg jid now s = s"
      with assms(1) DedupResume show ?thesis by (simp add: transition_ok_refl)
    next
      assume "task_step jid s (dedup_resume cfg jid now s)"
      with assms(1) t DedupResume show ?thesis
        using task_step_inv(1) [of s jid "dedup_resume cfg jid now s"] task_step_inv(2) [of s jid "dedup_resume cfg jid now s" k]
        by simp
    qed
  next
    case False
    then have "dedup_resume cfg jid now s = s"
      by (simp add: dedup_resume_def split: option.splits task.splits)
    with assms(1) DedupResume show ?thesis by (simp add: transition_ok_refl)
  qed
next
  case (RenderSettle p outcome)
  have "jobs (render_settle cfg p outcome s) = jobs s"
    and "tasks (render_settle cfg p outcome s) = tasks s"
    by (simp_all add: render_settle_def split: option.splits settled.splits sum.splits)
  with assms(1) RenderSettle show ?thesis
    by (simp add: registry_inv_def transition_ok_refl)
next
  case (RenderResume jid now)
  show ?thesis
  proof (cases "\<exists>cacheKey p. tasks s jid = Some (AwaitRender cacheKey p)")
    case True
    then obtain cacheKey p where t: "tasks s jid = Some (AwaitRender cacheKey p)" by blast
    from render_resume_task_step [OF t, of now]
    show ?thesis
    proof
      assume "render_resume jid now s = s"
      with assms(1) RenderResume show ?thesis by (simp add: transition_ok_refl)
    next
      assume "task_step jid s (render_resume jid now s)"
      with assms(1) t RenderResume show ?thesis
        using task_step_inv(1) [of s jid "render_resume jid now s"] task_step_inv(2) [of s jid "render_resume jid now s" k]
        by simp
    qed
  next
    case False
    then have "render_resume jid now s = s"
      by (simp add: render_resume_def split: option.splits task.splits)
    with assms(1) RenderResume show ?thesis by (simp add: transition_ok_refl)
  qed
next
  case (Poll jid)
  with assms(1) show ?thesis by (simp add: transition_ok_refl)
qed

text \<open>The states a run goes through, the first one included.\<close>

fun states :: "server_config \<Rightarrow> event list \<Rightarrow> server \<Rightarrow> server list" where
  "states cfg [] s = [s]"
| "states cfg (ev # evs) s = s # states cfg evs (step cfg ev s)"

lemma states_hd: "\<exists>rest. states cfg evs s = s # rest"
  by (cases evs) simp_all

lemma run_inv:
  assumes "registry_inv s" and "fresh_run cfg evs s"
  shows "registry_inv (run cfg evs s)
       \<and> successively transition_ok (map (\<lambda>st. jobs st k) (states cfg evs s))"
  using assms
proof (induction evs arbitrary: s)
  case Nil
  then show ?case by simp
next
  case (Cons ev evs)
  from Cons.prems have f: "fresh ev s" and fr: "fresh_run cfg evs (step cfg ev s)"
    by simp_all
  from step_inv [OF Cons.prems(1) f, of cfg k]
  have inv': "registry_inv (step cfg ev s)"
    and tr: "transition_ok (jobs s k) (jobs (step cfg ev s) k)"
    by simp_all
  from Cons.IH [OF inv' fr]
  have ih: "registry_inv (run cfg evs (step cfg ev s))"
    "successively transition_ok (map (\<lambda>st. jobs st k) (states cfg evs (step cfg ev s)))"
    by simp_all
  obtain rest where rest: "states cfg evs (step cfg ev s) = step cfg ev s # rest"
    using states_hd by blast
  show ?case using ih tr by (simp add: rest)
qed

lemma run_terminal_stable:
  assumes "registry_inv s" and "fresh_run cfg evs s"
    and "jobs s k = Some j" and "terminal j"
  shows "jobs (run cfg evs s) k = Some j"
  using assms
proof (induction evs arbitrary: s)
  case Nil
  then show ?case by simp
next
  case (Cons ev evs)
  from Cons.prems have f: "fresh ev s" and fr: "fresh_run cfg evs (step cfg ev s)"
    by simp_all
  from step_inv [OF Cons.prems(1) f, of cfg k]
  have inv': "registry_inv (step cfg ev s)"
    and tr: "transition_ok (jobs s k) (jobs (step cfg ev s) k)"
    by simp_all
  from tr Cons.prems(3,4) have "jobs (step cfg ev s) k = Some j"
    by (auto simp: transition_ok_def terminal_def)
  from Cons.IH [OF inv' fr this Cons.prems(4)] show ?case by simp
qed

lemma server_start_inv: "registry_inv server_start"
  by (simp add: registry_inv_def server_start_def)

subsection \<open>The life cycle of a job\<close>

text \<open>Two runs used as concrete inputs.  In the first a job is rendered and a second
  job with the same payload finds the artifact; in the second the render is rejected
  because the file cannot be written.\<close>

definition run_two_jobs :: "event list" where
  "run_two_jobs =
     [Accept ''job-1'' payload_floor 1000,
      TaskBegin ''job-1'' 1001,
      RenderSettle 0 (Inr ''da39a3ee5e6b4b0d3255bfef95601890afd80709.png''),
      RenderResume ''job-1'' 2000,
      Poll ''job-1'',
      Accept ''job-2'' payload_floor 3000,
      TaskBegin ''job-2'' 3001]"

definition run_write_fails :: "event list" where
  "run_write_fails =
     [Accept ''job-1'' payload_floor 1000,
      TaskBegin ''job-1'' 1001,
      RenderSettle 0 (Inl (Error ''ENOSPC: no space left on device, write'')),
      RenderResume ''job-1'' 2000]"

lemma stub_fingerprint:
  "bind_err (wants_gif (builtins config_stub) payload_floor)
     (\<lambda>wantsGif. stableHashPayload (builtins config_stub) payload_floor)
   = Inr ''da39a3ee5e6b4b0d3255bfef95601890afd80709''"
  by (simp add: config_stub_def builtins_stub_def payload_floor_def wants_gif_def
      stableHashPayload_def normalized_payload_def norm_layer_def layer_frames_def
      norm_draw_def bind_err_def or_else_def nullish_def Let_def)

lemma stub_accept:
  "jobs s uuid = None \<Longrightarrow>
   accept_job config_stub uuid payload_floor now s
     = s\<lparr>jobs := (jobs s)(uuid \<mapsto> pending_job now payload_floor),
         tasks := (tasks s)(uuid \<mapsto> AtStart)\<rparr>"
  by (simp add: accept_job_def config_stub_def builtins_stub_def default_limits_def
      payload_floor_def validate_payload_def payload_width_def payload_height_def
      bind_err_def or_else_def Let_def)

lemma stub_task_begin_render:
  assumes "tasks s jid = Some AtStart" and "jobs s jid = Some (pending_job t payload_floor)"
    and "files s = {}" and "inFlightByKey s = Map.empty"
  shows "task_begin config_stub jid now s
     = s\<lparr>promises := (promises s)(allocated s \<mapsto> Unsettled),
         allocated := allocated s + 1,
         inFlightByKey := [''da39a3ee5e6b4b0d3255bfef95601890afd80709'' \<mapsto> allocated s],
         tasks := (tasks s)(jid \<mapsto>
           AwaitRender ''da39a3ee5e6b4b0d3255bfef95601890afd80709'' (allocated s))\<rparr>"
  using assms
  by (simp add: task_begin_def pending_job_def stub_fingerprint start_render_def)
     (simp add: config_stub_def)

text \<open>The states of the first job: accepted, rendering, rendered, done.\<close>

definition state_accepted :: server where
  "state_accepted =
     \<lparr>jobs = [''job-1'' \<mapsto> pending_job 1000 payload_floor],
      inFlightByKey = Map.empty, promises = Map.empty, allocated = 0, files = {},
      tasks = [''job-1'' \<mapsto> AtStart]\<rparr>"

definition state_rendering :: server where
  "state_rendering =
     \<lparr>jobs = [''job-1'' \<mapsto> pending_job 1000 payload_floor],
      inFlightByKey = [''da39a3ee5e6b4b0d3255bfef95601890afd80709'' \<mapsto> 0],
      promises = [0 \<mapsto> Unsettled], allocated = 1, files = {},
      tasks = [''job-1'' \<mapsto> AwaitRender ''da39a3ee5e6b4b0d3255bfef95601890afd80709'' 0]\<rparr>"

definition state_rendered :: server where
  "state_rendered =
     \<lparr>jobs = [''job-1'' \<mapsto> pending_job 1000 payload_floor],
      inFlightByKey = [''da39a3ee5e6b4b0d3255bfef95601890afd80709'' \<mapsto> 0],
      promises = [0 \<mapsto> Resolved
        ''http://localhost:8081/out/da39a3ee5e6b4b0d3255bfef95601890afd80709.png''],
      allocated = 1, files = {''da39a3ee5e6b4b0d3255bfef95601890afd80709.png''},
      tasks = [''job-1'' \<mapsto> AwaitRender ''da39a3ee5e6b4b0d3255bfef95601890afd80709'' 0]\<rparr>"

definition state_done :: server where
  "state_done =
     \<lparr>jobs = [''job-1'' \<mapsto>
        done_job ''http://localhost:8081/out/da39a3ee5e6b4b0d3255bfef95601890afd80709.png''
          ''png'' 1000 2000 (Some payload_floor)],
      inFlightByKey = Map.empty,
      promises = [0 \<mapsto> Resolved
        ''http://localhost:8081/out/da39a3ee5e6b4b0d3255bfef95601890afd80709.png''],
      allocated = 1, files = {''da39a3ee5e6b4b0d3255bfef95601890afd80709.png''},
      tasks = Map.empty\<rparr>"

lemma stub_step1:
  "step config_stub (Accept ''job-1'' payload_floor 1000) server_start = state_accepted"
  by (simp add: stub_accept server_start_def state_accepted_def)

lemma stub_step2: "step config_stub (TaskBegin ''job-1'' 1001) state_accepted = state_rendering"
proof -
  have "task_begin config_stub ''job-1'' 1001 state_accepted
     = state_accepted\<lparr>promises := (promises state_accepted)(allocated state_accepted \<mapsto> Unsettled),
         allocated := allocated state_accepted + 1,
         inFlightByKey := [''da39a3ee5e6b4b0d3255bfef95601890afd80709''
                             \<mapsto> allocated state_accepted],
         tasks := (tasks state_accepted)(''job-1'' \<mapsto>
           AwaitRender ''da39a3ee5e6b4b0d3255bfef95601890afd80709''
             (allocated state_accepted))\<rparr>"
    by (rule stub_task_begin_render [where t = 1000]) (simp_all add: state_accepted_def)
  then show ?thesis by (simp add: state_accepted_def state_rendering_def)
qed

lemma stub_step3:
  "step config_stub (RenderSettle 0 (Inr ''da39a3ee5e6b4b0d3255bfef95601890afd80709.png''))
     state_rendering = state_rendered"
  by (simp add: render_settle_def state_rendering_def state_rendered_def config_stub_def)

lemma stub_step4: "step config_stub (RenderResume ''job-1'' 2000) state_rendered = state_done"
  by (simp add: render_resume_def state_rendered_def state_done_def finish_job_def
      pending_job_def format_of_url_def ends_with_def)

text \<open>
  C9.  Start from a state in which only pending jobs have an asynchronous function
  that has not returned (the state of a fresh process is one), and take any run of
  events in which every accepted job gets an identifier that is not in the registry.
  Then, from each state of the run to the next, the record of an identifier either
  appears, and then it is pending; or was pending, and then there is still a record; or
  was done or in error, and then it is the same record.  So a job that is done or in
  error stays exactly as it is through all later events, and a poll returns that
  record.
\<close>

theorem job_status_lifecycle:
  assumes "registry_inv s" and "fresh_run cfg evs s"
  shows "successively transition_ok (map (\<lambda>st. jobs st jid) (states cfg evs s))
       \<and> (\<forall>j. jobs s jid = Some j \<and> terminal j \<longrightarrow> poll jid (run cfg evs s) = Some j)
       \<and> registry_inv (run cfg evs s)"
proof -
  have "successively transition_ok (map (\<lambda>st. jobs st jid) (states cfg evs s))"
    and "registry_inv (run cfg evs s)"
    using run_inv [OF assms, of jid] by simp_all
  moreover have "\<forall>j. jobs s jid = Some j \<and> terminal j \<longrightarrow> poll jid (run cfg evs s) = Some j"
    using run_terminal_stable [OF assms] by (simp add: poll_def)
  ultimately show ?thesis by blast
qed

theorem job_status_lifecycle_witness:
  "registry_inv server_start
   \<and> fresh_run config_stub run_two_jobs server_start
   \<and> successively transition_ok
       (map (\<lambda>st. jobs st ''job-1'') (states config_stub run_two_jobs server_start))
   \<and> map (\<lambda>st. map_option status (jobs st ''job-1''))
       (states config_stub run_two_jobs server_start)
     = [None, Some StatusPending, Some StatusPending, Some StatusPending, Some StatusDone,
        Some StatusDone, Some StatusDone, Some StatusDone]
   \<and> poll ''job-2'' (run config_stub run_two_jobs server_start)
     = Some (done_job ''http://localhost:8081/out/da39a3ee5e6b4b0d3255bfef95601890afd80709.png''
               ''png'' 3000 3001 (Some payload_floor))"
proof -
  let ?url = "''http://localhost:8081/out/da39a3ee5e6b4b0d3255bfef95601890afd80709.png''"
  define s6 where "s6 = state_done\<lparr>jobs := (jobs state_done)(''job-2'' \<mapsto>
      pending_job 3000 payload_floor), tasks := (tasks state_done)(''job-2'' \<mapsto> AtStart)\<rparr>"
  define s7 where "s7 = step config_stub (TaskBegin ''job-2'' 3001) s6"
  have e5: "step config_stub (Poll ''job-1'') state_done = state_done" by simp
  have e6: "step config_stub (Accept ''job-2'' payload_floor 3000) state_done = s6"
    unfolding s6_def by (simp add: stub_accept state_done_def)
  have j7: "jobs s7 = [''job-1'' \<mapsto> done_job ?url ''png'' 1000 2000 (Some payload_floor),
      ''job-2'' \<mapsto> done_job ?url ''png'' 3000 3001 (Some payload_floor)]"
    unfolding s7_def s6_def state_done_def
    by (simp add: task_begin_def pending_job_def stub_fingerprint finish_job_def)
       (simp add: config_stub_def)
  have st: "states config_stub run_two_jobs server_start
      = [server_start, state_accepted, state_rendering, state_rendered, state_done,
         state_done, s6, s7]"
    unfolding run_two_jobs_def
    by (simp only: states.simps stub_step1 stub_step2 stub_step3 stub_step4 e5 e6 s7_def)
  have rn: "run config_stub run_two_jobs server_start = s7"
    unfolding run_two_jobs_def
    by (simp only: run.simps stub_step1 stub_step2 stub_step3 stub_step4 e5 e6 s7_def)
  have inv: "registry_inv server_start" by (rule server_start_inv)
  have f1: "jobs server_start ''job-1'' = None" by (simp add: server_start_def)
  have f2: "jobs state_done ''job-2'' = None" by (simp add: state_done_def)
  have fr: "fresh_run config_stub run_two_jobs server_start"
    unfolding run_two_jobs_def
    by (simp only: fresh_run.simps fresh.simps stub_step1 stub_step2 stub_step3 stub_step4
        e5 e6 f1 f2 simp_thms)
  have trace: "map (\<lambda>st. map_option status (jobs st ''job-1''))
       (states config_stub run_two_jobs server_start)
     = [None, Some StatusPending, Some StatusPending, Some StatusPending, Some StatusDone,
        Some StatusDone, Some StatusDone, Some StatusDone]"
    unfolding st
    by (simp add: server_start_def state_accepted_def state_rendering_def state_rendered_def
        state_done_def s6_def j7 pending_job_def done_job_def)
  have pl: "poll ''job-2'' (run config_stub run_two_jobs server_start)
     = Some (done_job ?url ''png'' 3000 3001 (Some payload_floor))"
    unfolding rn poll_def j7 by simp
  from job_status_lifecycle [OF inv fr, of "''job-1''"] trace pl inv fr
  show ?thesis by simp
qed

subsection \<open>The entry of the in-flight table when the render ends\<close>

text \<open>
  When a render promise is fulfilled, the function of its job deletes the entry of the
  fingerprint as it resumes.  When the promise is rejected, the function resumes in
  its \<open>catch\<close> block and the table is left as it was.
\<close>

lemma render_resume_fulfilled_cleans:
  assumes "tasks s jid = Some (AwaitRender cacheKey p)" and "promises s p = Some (Resolved url)"
  shows "inFlightByKey (render_resume jid now s) cacheKey = None"
  using assms
  by (simp add: render_resume_def finish_job_def fail_job_def split: option.splits)

lemma render_resume_rejected_keeps:
  assumes "tasks s jid = Some (AwaitRender cacheKey p)"
    and "promises s p = Some (RejectedWith e)"
  shows "inFlightByKey (render_resume jid now s) = inFlightByKey s"
  using assms by (simp add: render_resume_def fail_job_def)

text \<open>
  C6, on the code.  A job is accepted and its render is started under its
  fingerprint; the render promise is rejected (the artifact cannot be written); the
  function of the job resumes.  At the end the job is in error, its function has
  returned, and the in-flight table still maps the fingerprint to the rejected
  promise: the entry was not cleaned up.
\<close>

theorem inflight_entry_left_after_rejection:
  "inFlightByKey (run config_stub run_write_fails server_start)
      ''da39a3ee5e6b4b0d3255bfef95601890afd80709'' = Some 0
   \<and> promises (run config_stub run_write_fails server_start) 0
      = Some (RejectedWith (Error ''ENOSPC: no space left on device, write''))
   \<and> tasks (run config_stub run_write_fails server_start) ''job-1'' = None
   \<and> poll ''job-1'' (run config_stub run_write_fails server_start)
      = Some (error_job ''ENOSPC: no space left on device, write'' 1000 2000)"
proof -
  have "run config_stub run_write_fails server_start
      = step config_stub (RenderResume ''job-1'' 2000)
          (step config_stub
             (RenderSettle 0 (Inl (Error ''ENOSPC: no space left on device, write'')))
             state_rendering)"
    unfolding run_write_fails_def by (simp only: run.simps stub_step1 stub_step2)
  then show ?thesis
    by (simp add: render_settle_def render_resume_def state_rendering_def fail_job_def
        pending_job_def poll_def)
qed

subsection \<open>A coercion that raises in the handler\<close>

text \<open>
  What the hypothesis on the coercions leaves out.  An object parsed from JSON with an
  own property \<open>toString\<close> does not convert to a string: with such a \<open>format\<close> the
  checks pass, the coercion of line 424 raises inside the handler, and neither a 400
  nor a job id is sent.  The registry was written before, so the job stays pending with
  no function to finish it.
\<close>

definition payload_format_object :: jsval where
  "payload_format_object =
     JObj [(''guild'', JStr ''g''), (''user'', JStr ''u''), (''layers'', JArr []),
           (''format'', JObj [(''toString'', JNum (Fin 1))])]"

lemma post_jobs_coercion_raises:
  "validate_payload builtins_stub default_limits payload_format_object = Inr None"
  "post_jobs builtins_stub default_limits ''job-1'' payload_format_object = Inl TypeError"
  "jobs (accept_job config_stub ''job-1'' payload_format_object 1000 server_start) ''job-1''
     = Some (pending_job 1000 payload_format_object)"
  "tasks (accept_job config_stub ''job-1'' payload_format_object 1000 server_start) ''job-1''
     = None"
  by (simp_all add: validate_payload_def post_jobs_def accept_job_def config_stub_def
      builtins_stub_def default_limits_def payload_format_object_def payload_width_def
      payload_height_def bind_err_def or_else_def server_start_def Let_def)

section \<open>A job none of whose frames loads (lines 286-290, 485-509)\<close>

text \<open>
  The render promise of a job settles with what the render did: fulfilled with the URL,
  after the files it wrote are in the output directory; or rejected; or never.
\<close>

definition render_settled :: "nat \<Rightarrow> 'img render_result \<Rightarrow> server \<Rightarrow> server" where
  "render_settled p r s =
     (case promises s p of
        Some Unsettled \<Rightarrow>
          (case snd r of
             Fulfilled url \<Rightarrow>
               s\<lparr>promises := (promises s)(p \<mapsto> Resolved url),
                 files := files s \<union> fst ` set (fst r)\<rparr>
           | Rejected e \<Rightarrow> s\<lparr>promises := (promises s)(p \<mapsto> RejectedWith e)\<rparr>
           | Pending_forever \<Rightarrow> s)
      | _ \<Rightarrow> s)"






lemma render_settled_as_event:
  "render_settled p ([(name, buf)], Fulfilled (BASE_URL cfg @ ''/out/'' @ name)) s
     = render_settle cfg p (Inr name) s"
  "render_settled p (ws, Rejected e) s = render_settle cfg p (Inl e) s"
  by (simp_all add: render_settled_def render_settle_def split: option.splits settled.splits)



subsection \<open>No surviving frame: the fallback to PNG\<close>




end
